theory Spec2Isabelle
  imports Main
begin

section \<open>The type graph of \<open>graphql/core/type/definition.py\<close>\<close>

text \<open>
  Python values that the constructors receive in an optional "capability" parameter
  (\<open>serialize\<close>, \<open>parse_value\<close>, \<open>parse_literal\<close>, \<open>is_type_of\<close>, \<open>resolve_type\<close>):
  \<open>None\<close>, a function, or any other value, of which the code only ever asks
  whether it is truthy. Functions are truthy and callable; \<open>None\<close> is neither.
\<close>

datatype 'f slot = PyNone | Callable 'f | NonCallable bool

fun truthy :: "'f slot \<Rightarrow> bool" where
  "truthy PyNone = False"
| "truthy (Callable f) = True"
| "truthy (NonCallable b) = b"

fun callable :: "'f slot \<Rightarrow> bool" where
  "callable (Callable f) = True"
| "callable _ = False"

text \<open>
  The classes of type values. A value of every class but the two modifiers carries its
  object identity (Python's \<open>id\<close>) and its \<open>name\<close>; then the attributes that the
  functions below read. \<open>'v\<close> is the type of runtime values handed to \<open>is_type_of\<close>
  and \<open>resolve_type\<close>. The \<open>description\<close> attribute is stored by every constructor
  and read by none of the functions here; it is left out.

  \<^item> Scalar: \<open>_serialize\<close>, \<open>_parse_value\<close>, \<open>_parse_literal\<close>;
  \<^item> Object: \<open>is_type_of\<close>;
  \<^item> Interface: \<open>type_resolver\<close> and \<open>_impls\<close>;
  \<^item> Union: \<open>_resolve_type\<close> and \<open>_types\<close>;
  \<^item> Enum: \<open>_values\<close>, a list of references to GraphQLEnumValue objects (see below).
\<close>

datatype 'v gtype =
    GraphQLScalarType nat string "('v \<Rightarrow> 'v) slot" "('v \<Rightarrow> 'v) slot" "('v \<Rightarrow> 'v) slot"
  | GraphQLObjectType nat string "('v \<Rightarrow> bool) slot"
  | GraphQLInterfaceType nat string "('v \<Rightarrow> 'v gtype option) slot" "'v gtype list"
  | GraphQLUnionType nat string "('v \<Rightarrow> 'v gtype option) slot" "'v gtype list"
  | GraphQLEnumType nat string "nat list"
  | GraphQLInputObjectType nat string
  | GraphQLList "'v gtype"
  | GraphQLNonNull "'v gtype"

datatype cls =
  ScalarC | ObjectC | InterfaceC | UnionC | EnumC | InputObjectC | ListC | NonNullC

text \<open>\<open>self.__class__\<close>\<close>

fun class_of :: "'v gtype \<Rightarrow> cls" where
  "class_of (GraphQLScalarType i n s pv pl) = ScalarC"
| "class_of (GraphQLObjectType i n ito) = ObjectC"
| "class_of (GraphQLInterfaceType i n r impls) = InterfaceC"
| "class_of (GraphQLUnionType i n r ts) = UnionC"
| "class_of (GraphQLEnumType i n vs) = EnumC"
| "class_of (GraphQLInputObjectType i n) = InputObjectC"
| "class_of (GraphQLList t) = ListC"
| "class_of (GraphQLNonNull t) = NonNullC"

text \<open>\<open>id(self)\<close>; the modifiers are given none, no claim depends on theirs.\<close>

fun oid :: "'v gtype \<Rightarrow> nat option" where
  "oid (GraphQLScalarType i n s pv pl) = Some i"
| "oid (GraphQLObjectType i n ito) = Some i"
| "oid (GraphQLInterfaceType i n r impls) = Some i"
| "oid (GraphQLUnionType i n r ts) = Some i"
| "oid (GraphQLEnumType i n vs) = Some i"
| "oid (GraphQLInputObjectType i n) = Some i"
| "oid (GraphQLList t) = None"
| "oid (GraphQLNonNull t) = None"

text \<open>\<open>self.name\<close>: the modifiers have no such attribute (\<open>None\<close> here).\<close>

fun type_name :: "'v gtype \<Rightarrow> string option" where
  "type_name (GraphQLScalarType i n s pv pl) = Some n"
| "type_name (GraphQLObjectType i n ito) = Some n"
| "type_name (GraphQLInterfaceType i n r impls) = Some n"
| "type_name (GraphQLUnionType i n r ts) = Some n"
| "type_name (GraphQLEnumType i n vs) = Some n"
| "type_name (GraphQLInputObjectType i n) = Some n"
| "type_name (GraphQLList t) = None"
| "type_name (GraphQLNonNull t) = None"

definition is_named :: "'v gtype \<Rightarrow> bool" where
  "is_named t = (class_of t \<noteq> ListC \<and> class_of t \<noteq> NonNullC)"

text \<open>
  \<open>GraphQLType.is_same_type\<close>, with its overrides in \<open>GraphQLList\<close> and
  \<open>GraphQLNonNull\<close>. In the base method \<open>other.name\<close> is read only when the
  classes are the same, so \<open>other\<close> is a named type there.
\<close>

fun is_same_type :: "'v gtype \<Rightarrow> 'v gtype \<Rightarrow> bool" where
  "is_same_type (GraphQLList t) other =
     (case other of GraphQLList u \<Rightarrow> is_same_type t u | _ \<Rightarrow> False)"
| "is_same_type (GraphQLNonNull t) other =
     (case other of GraphQLNonNull u \<Rightarrow> is_same_type t u | _ \<Rightarrow> False)"
| "is_same_type self other =
     (class_of self = class_of other \<and> type_name self = type_name other)"

text \<open>\<open>get_named_type\<close>: the \<open>while\<close> loop follows \<open>of_type\<close> through the modifiers.\<close>

fun get_named_type :: "'v gtype \<Rightarrow> 'v gtype" where
  "get_named_type (GraphQLList t) = get_named_type t"
| "get_named_type (GraphQLNonNull t) = get_named_type t"
| "get_named_type t = t"

definition is_input_type :: "'v gtype \<Rightarrow> bool" where
  "is_input_type t =
     (class_of (get_named_type t) \<in> {ScalarC, EnumC, InputObjectC})"

definition is_output_type :: "'v gtype \<Rightarrow> bool" where
  "is_output_type t =
     (class_of (get_named_type t) \<in> {ScalarC, ObjectC, InterfaceC, UnionC, EnumC})"

text \<open>
  The words of the specification, for comparison with \<open>get_named_type\<close>: a type is a
  stack of modifiers around a named type, and stripping the modifiers gives that type.
\<close>

datatype modifier = ListOf | NonNullOf

fun wrap :: "modifier list \<Rightarrow> 'v gtype \<Rightarrow> 'v gtype" where
  "wrap [] n = n"
| "wrap (ListOf # ms) n = GraphQLList (wrap ms n)"
| "wrap (NonNullOf # ms) n = GraphQLNonNull (wrap ms n)"

fun modifiers :: "'v gtype \<Rightarrow> modifier list" where
  "modifiers (GraphQLList t) = ListOf # modifiers t"
| "modifiers (GraphQLNonNull t) = NonNullOf # modifiers t"
| "modifiers t = []"

subsection \<open>Names and diagnostics\<close>

text \<open>
  \<open>NAME_PATTERN = re.compile(r'^[_a-zA-Z][_a-zA-Z0-9]*$')\<close>, used through
  \<open>NAME_PATTERN.match\<close>. In Python \<open>$\<close> matches at the end of the string and
  also just before a newline that ends the string.
\<close>

definition name_start :: "char \<Rightarrow> bool" where
  "name_start c = (c \<in> set ''_abcdefghijklmnopqrstuvwxyzABCDEFGHIJKLMNOPQRSTUVWXYZ'')"

definition name_char :: "char \<Rightarrow> bool" where
  "name_char c = (name_start c \<or> c \<in> set ''0123456789'')"

fun NAME_PATTERN_match :: "string \<Rightarrow> bool" where
  "NAME_PATTERN_match [] = False"
| "NAME_PATTERN_match (c # cs) =
     (name_start c \<and>
      (list_all name_char cs
       \<or> (cs \<noteq> [] \<and> last cs = CHR 0x0A \<and> list_all name_char (butlast cs))))"

text \<open>
  Every \<open>assert\<close> of the module raises \<open>AssertionError\<close> with a message; the
  constructors below name the assertion and carry the values formatted into the message.
  \<open>TypeError\<close> and \<open>AttributeError\<close> are what Python raises when a value that is
  no function is called and when an attribute is missing.
\<close>

datatype error =
    TypeMustBeNamed
      \<comment> \<open>\<open>Type must be named.\<close>\<close>
  | NamesMustMatch string
      \<comment> \<open>\<open>Names must match /^[_a-zA-Z][_a-zA-Z0-9]*$/ but "{}" does not.\<close>\<close>
  | MustProvideSerialize string
      \<comment> \<open>\<open>{} must provide "serialize" function. If this custom Scalar is also used as
         an input type, ensure "parse_value" and "parse_literal" functions are also
         provided.\<close>\<close>
  | MustProvideBothParse string
      \<comment> \<open>\<open>{} must provide both "parse_value" and "parse_literal" functions.\<close>\<close>
  | IsTypeOfMustBeFunction string
      \<comment> \<open>\<open>{} must provide "is_type_of" as a function.\<close>\<close>
  | ResolveTypeMustBeFunction string
      \<comment> \<open>\<open>{} must provide "resolve_type" as a function.\<close>\<close>
  | InterfacesMustBeList string
      \<comment> \<open>\<open>{} interfaces must be an list/tuple or a function which returns an
         list/tuple.\<close>\<close>
  | MayOnlyImplementInterfaces string string
      \<comment> \<open>\<open>{} may only implement Interface types, it cannot implement: {}.\<close>\<close>
  | InterfaceNoResolveType string string
      \<comment> \<open>\<open>Interface Type {} does not provide a "resolve_type" function and
         implementing Type {} does not provide a "is_type_of" function. There is no way to
         resolve this implementing type during execution.\<close>\<close>
  | MustProvideTypes string
      \<comment> \<open>\<open>Must provide types for Union {}.\<close>\<close>
  | MayOnlyContainObjects string string
      \<comment> \<open>\<open>{} may only contain Object types, it cannot contain: {}\<close>\<close>
  | UnionNoResolveType string string
      \<comment> \<open>\<open>Union Type {} does not provide a "resolve_type" function and possible Type
         {} does not provide a "is_type_of" function. There is no way to resolve this
         possible type during execution.\<close>\<close>
  | FieldsMustBeMapping string
      \<comment> \<open>\<open>{} fields must be an mapping (dict) with field names as keys or a function
         which returns such an mapping.\<close>\<close>
  | FieldMustBeOutputType string string string
      \<comment> \<open>\<open>{}.{} field type must be Output Type but got: {}\<close>\<close>
  | ArgsMustBeMapping string string
      \<comment> \<open>\<open>{}.{} args must be an mapping (dict) with argument names as keys.\<close>\<close>
  | ArgMustBeInputType string string string string
      \<comment> \<open>\<open>{}.{}({}:) argument type must be Input Type but got: {}.\<close>\<close>
  | FieldMustBeInputType string string
      \<comment> \<open>\<open>{}.{} field type must be Input Type but got: {}\<close>, whose first
         placeholder receives the builtin \<open>type\<close>\<close>
  | ValuesMustBeMapping string
      \<comment> \<open>\<open>{} values must be an mapping (dict) with value names as keys.\<close>\<close>
  | MustReferToEnumValue string string
      \<comment> \<open>\<open>{}.{} must refer to an object of GraphQLEnumValue type but got: {}\<close>\<close>
  | TypeError
  | AttributeError

definition assert_valid_name :: "string \<Rightarrow> error option" where
  "assert_valid_name name = (if NAME_PATTERN_match name then None else Some (NamesMustMatch name))"

text \<open>\<open>__str__\<close>, which the messages format a type with.\<close>

fun str :: "'v gtype \<Rightarrow> string" where
  "str (GraphQLScalarType i n s pv pl) = n"
| "str (GraphQLObjectType i n ito) = n"
| "str (GraphQLInterfaceType i n r impls) = n"
| "str (GraphQLUnionType i n r ts) = n"
| "str (GraphQLEnumType i n vs) = n"
| "str (GraphQLInputObjectType i n) = n"
| "str (GraphQLList t) = ''['' @ str t @ '']''"
| "str (GraphQLNonNull t) = str t @ ''!''"

subsection \<open>Constructors\<close>


definition GraphQLInterfaceType_init ::
  "nat \<Rightarrow> string \<Rightarrow> ('v \<Rightarrow> 'v gtype option) slot \<Rightarrow> error + 'v gtype" where
  "GraphQLInterfaceType_init i name resolve_type =
     (if name = [] then Inl TypeMustBeNamed
      else
       (case assert_valid_name name of
          Some e \<Rightarrow> Inl e
        | None \<Rightarrow>
           (if truthy resolve_type \<and> \<not> callable resolve_type
              then Inl (ResolveTypeMustBeFunction name)
            else Inr (GraphQLInterfaceType i name resolve_type []))))"











subsection \<open>Resolving the concrete type of a value\<close>

text \<open>\<open>get_possible_types\<close> of an Interface (\<open>_impls\<close>) and of a Union (\<open>_types\<close>).\<close>

fun get_possible_types :: "'v gtype \<Rightarrow> error + 'v gtype list" where
  "get_possible_types (GraphQLInterfaceType i n r impls) = Inr impls"
| "get_possible_types (GraphQLUnionType i n r ts) = Inr ts"
| "get_possible_types t = Inl AttributeError"

text \<open>
  The loop of \<open>get_type_of\<close>: the first type with a callable \<open>is_type_of\<close> that
  returns a truthy result for the value; falling off the end returns \<open>None\<close>. Only
  Object types have the attribute \<open>is_type_of\<close>.
\<close>

fun scan_possible_types :: "'v \<Rightarrow> 'v gtype list \<Rightarrow> error + 'v gtype option" where
  "scan_possible_types v [] = Inr None"
| "scan_possible_types v (t # ts) =
     (case t of
        GraphQLObjectType j n is_type_of \<Rightarrow>
          (case is_type_of of
             Callable f \<Rightarrow> if f v then Inr (Some t) else scan_possible_types v ts
           | _ \<Rightarrow> scan_possible_types v ts)
      | _ \<Rightarrow> Inl AttributeError)"

definition get_type_of :: "'v \<Rightarrow> 'v gtype \<Rightarrow> error + 'v gtype option" where
  "get_type_of v abstract_type =
     (case get_possible_types abstract_type of
        Inl e \<Rightarrow> Inl e
      | Inr possible_types \<Rightarrow> scan_possible_types v possible_types)"

text \<open>
  \<open>GraphQLInterfaceType.resolve_type\<close> and \<open>GraphQLUnionType.resolve_type\<close>: a
  truthy resolver is called (a \<open>TypeError\<close> when it is no function); otherwise
  \<open>get_type_of\<close>. The other classes have no such method.
\<close>

fun call_resolver :: "('v \<Rightarrow> 'v gtype option) slot \<Rightarrow> 'v \<Rightarrow> error + 'v gtype option" where
  "call_resolver (Callable f) v = Inr (f v)"
| "call_resolver r v = Inl TypeError"

fun resolve_type :: "'v gtype \<Rightarrow> 'v \<Rightarrow> error + 'v gtype option" where
  "resolve_type (GraphQLInterfaceType i n r impls) v =
     (if truthy r then call_resolver r v
      else get_type_of v (GraphQLInterfaceType i n r impls))"
| "resolve_type (GraphQLUnionType i n r ts) v =
     (if truthy r then call_resolver r v
      else get_type_of v (GraphQLUnionType i n r ts))"
| "resolve_type t v = Inl AttributeError"


section \<open>Objects that are copied or mutated: fields, arguments, enum values\<close>

text \<open>
  Fields, arguments and enum values are Python objects that the module copies
  (\<open>copy.copy\<close>) or assigns to in place, and that a caller may share between
  definitions. They live in stores, one list of objects per class; a reference is an
  index into the list of its class, and allocating an object appends it. Objects of
  different classes are never the same object. \<open>'r\<close> stands for the attributes that
  the module stores and never reads (\<open>resolver\<close>, \<open>default_value\<close>,
  \<open>deprecation_reason\<close>, \<open>description\<close>). The attribute \<open>name\<close> does not
  exist until the module assigns it.
\<close>

record ('v, 'r) GraphQLArgument =
  arg_name :: "string option"
  arg_type :: "'v gtype"
  arg_rest :: 'r

text \<open>
  \<open>field.args\<close>: \<open>None\<close>, a dict from names to arguments, the list of arguments
  that \<open>define_field_map\<close> leaves there, or another value with its truthiness.
\<close>

datatype args_value =
  ArgsNone | ArgsMapping "(string \<times> nat) list" | ArgsList "nat list" | ArgsOther bool

record ('v, 'r) GraphQLField =
  field_name :: "string option"
  field_type :: "'v gtype"
  field_args :: args_value
  field_rest :: 'r

record ('v, 'r) GraphQLInputObjectField =
  input_name :: "string option"
  input_type :: "'v gtype"
  input_rest :: 'r

record ('v, 'r) store =
  field_objs :: "('v, 'r) GraphQLField list"
  arg_objs :: "('v, 'r) GraphQLArgument list"
  input_objs :: "('v, 'r) GraphQLInputObjectField list"

definition GraphQLField_init :: "'v gtype \<Rightarrow> args_value \<Rightarrow> 'r \<Rightarrow> ('v, 'r) GraphQLField" where
  "GraphQLField_init type args rest =
     \<lparr>field_name = None, field_type = type, field_args = args, field_rest = rest\<rparr>"

definition GraphQLArgument_init :: "'v gtype \<Rightarrow> 'r \<Rightarrow> ('v, 'r) GraphQLArgument" where
  "GraphQLArgument_init type rest = \<lparr>arg_name = None, arg_type = type, arg_rest = rest\<rparr>"

definition GraphQLInputObjectField_init ::
  "'v gtype \<Rightarrow> 'r \<Rightarrow> ('v, 'r) GraphQLInputObjectField" where
  "GraphQLInputObjectField_init type rest =
     \<lparr>input_name = None, input_type = type, input_rest = rest\<rparr>"

text \<open>\<open>not field.args\<close>: \<open>None\<close>, the empty dict and the empty list are falsy.\<close>

fun args_truthy :: "args_value \<Rightarrow> bool" where
  "args_truthy ArgsNone = False"
| "args_truthy (ArgsMapping d) = (d \<noteq> [])"
| "args_truthy (ArgsList xs) = (xs \<noteq> [])"
| "args_truthy (ArgsOther b) = b"

text \<open>
  A dict is a list of key-value pairs in iteration order, with distinct keys;
  \<open>d[k] = v\<close> replaces the value of a key that is there and appends the pair otherwise.
\<close>

fun dict_set :: "'k \<Rightarrow> 'a \<Rightarrow> ('k \<times> 'a) list \<Rightarrow> ('k \<times> 'a) list" where
  "dict_set k v [] = [(k, v)]"
| "dict_set k v (p # ps) = (if fst p = k then (k, v) # ps else p # dict_set k v ps)"

subsection \<open>\<open>define_field_map\<close>\<close>

text \<open>
  The inner loop of \<open>define_field_map\<close> over \<open>field.args.items()\<close>, with the
  list \<open>args\<close> it builds. \<open>tn\<close> and \<open>fn\<close> are the name of the type and of the
  field, for the messages. Each argument is checked, copied (the copy is the new
  object at the end of the store) and the copy is named.
\<close>

fun define_args ::
  "string \<Rightarrow> string \<Rightarrow> (string \<times> nat) list \<Rightarrow> nat list \<Rightarrow> ('v, 'r) GraphQLArgument list
     \<Rightarrow> (error + nat list) \<times> ('v, 'r) GraphQLArgument list" where
  "define_args tn fn [] args A = (Inr args, A)"
| "define_args tn fn ((arg_key, a) # rest) args A =
     (case assert_valid_name arg_key of
        Some e \<Rightarrow> (Inl e, A)
      | None \<Rightarrow>
         (if \<not> is_input_type (arg_type (A ! a))
            then (Inl (ArgMustBeInputType tn fn arg_key (str (arg_type (A ! a)))), A)
          else define_args tn fn rest (args @ [length A])
                 (A @ [(A ! a)\<lparr>arg_name := Some arg_key\<rparr>])))"

text \<open>
  The body of the outer loop for the entry \<open>fn: f\<close> of the dict; it returns the reference
  to the copy that goes into \<open>field_map\<close>. The copy is made and named before the
  type is checked, so it is in the store when the check fails.
\<close>

definition define_field ::
  "string \<Rightarrow> string \<Rightarrow> nat \<Rightarrow> ('v, 'r) store \<Rightarrow> (error + nat) \<times> ('v, 'r) store" where
  "define_field tn fn f st =
     (case assert_valid_name fn of
        Some e \<Rightarrow> (Inl e, st)
      | None \<Rightarrow>
         (let new = length (field_objs st);
              field = (field_objs st ! f)\<lparr>field_name := Some fn\<rparr>;
              st1 = st\<lparr>field_objs := field_objs st @ [field]\<rparr>
          in if \<not> is_output_type (field_type field)
               then (Inl (FieldMustBeOutputType tn fn (str (field_type field))), st1)
             else if \<not> args_truthy (field_args field)
               then (Inr new,
                     st1\<lparr>field_objs := (field_objs st1)[new := field\<lparr>field_args := ArgsList []\<rparr>]\<rparr>)
             else
              (case field_args field of
                 ArgsMapping d \<Rightarrow>
                   (case define_args tn fn d [] (arg_objs st1) of
                      (Inl e, A) \<Rightarrow> (Inl e, st1\<lparr>arg_objs := A\<rparr>)
                    | (Inr args, A) \<Rightarrow>
                        (Inr new,
                         st1\<lparr>field_objs :=
                               (field_objs st1)[new := field\<lparr>field_args := ArgsList args\<rparr>],
                             arg_objs := A\<rparr>))
               | _ \<Rightarrow> (Inl (ArgsMustBeMapping tn fn), st1))))"

text \<open>The loop over \<open>fields.items()\<close>, with the dict \<open>field_map\<close> it builds.\<close>

fun define_fields ::
  "string \<Rightarrow> (string \<times> nat) list \<Rightarrow> (string \<times> nat) list \<Rightarrow> ('v, 'r) store
     \<Rightarrow> (error + (string \<times> nat) list) \<times> ('v, 'r) store" where
  "define_fields tn [] field_map st = (Inr field_map, st)"
| "define_fields tn ((field_key, f) # rest) field_map st =
     (case define_field tn field_key f st of
        (Inl e, st') \<Rightarrow> (Inl e, st')
      | (Inr new, st') \<Rightarrow> define_fields tn rest (dict_set field_key new field_map) st')"

text \<open>
  The \<open>fields\<close> parameter of an Object, Interface or InputObject type: a value, or a
  zero-argument producer. A value is a dict from names to fields, or something else
  (\<open>None\<close>, a list). A producer is given by the value it returns at each of its
  invocations, counted from 0; the objects of the dicts it returns are in the store.
\<close>

datatype fields_value = FieldsMapping "(string \<times> nat) list" | FieldsOther

datatype fields_arg = FieldsGiven fields_value | FieldsProducer "nat \<Rightarrow> fields_value"

text \<open>
  \<open>if callable(fields): fields = fields()\<close>, with the number \<open>n\<close> of invocations
  of the producer so far. The parameter \<open>fields\<close> is called \<open>provided\<close> below.
\<close>

fun call_fields :: "fields_arg \<Rightarrow> nat \<Rightarrow> fields_value \<times> nat" where
  "call_fields (FieldsGiven x) n = (x, n)"
| "call_fields (FieldsProducer p) n = (p n, Suc n)"

definition define_field_map ::
  "string \<Rightarrow> fields_arg \<Rightarrow> nat \<Rightarrow> ('v, 'r) store
     \<Rightarrow> (error + (string \<times> nat) list) \<times> nat \<times> ('v, 'r) store" where
  "define_field_map tn provided n st =
     (case call_fields provided n of
        (FieldsOther, n') \<Rightarrow> (Inl (FieldsMustBeMapping tn), n', st)
      | (FieldsMapping d, n') \<Rightarrow>
          (if d = [] then (Inl (FieldsMustBeMapping tn), n', st)
           else (case define_fields tn d [] st of (res, st') \<Rightarrow> (res, n', st'))))"

text \<open>
  \<open>GraphQLInputObjectType._define_field_map\<close>: the same, over input fields, which
  have no arguments. Its message formats the builtin \<open>type\<close> where the others format
  the type.
\<close>

definition define_input_field ::
  "string \<Rightarrow> nat \<Rightarrow> ('v, 'r) store \<Rightarrow> (error + nat) \<times> ('v, 'r) store" where
  "define_input_field fn f st =
     (case assert_valid_name fn of
        Some e \<Rightarrow> (Inl e, st)
      | None \<Rightarrow>
         (let new = length (input_objs st);
              field = (input_objs st ! f)\<lparr>input_name := Some fn\<rparr>;
              st1 = st\<lparr>input_objs := input_objs st @ [field]\<rparr>
          in if \<not> is_input_type (input_type field)
               then (Inl (FieldMustBeInputType fn (str (input_type field))), st1)
             else (Inr new, st1)))"

fun define_input_fields ::
  "(string \<times> nat) list \<Rightarrow> (string \<times> nat) list \<Rightarrow> ('v, 'r) store
     \<Rightarrow> (error + (string \<times> nat) list) \<times> ('v, 'r) store" where
  "define_input_fields [] field_map st = (Inr field_map, st)"
| "define_input_fields ((field_key, f) # rest) field_map st =
     (case define_input_field field_key f st of
        (Inl e, st') \<Rightarrow> (Inl e, st')
      | (Inr new, st') \<Rightarrow> define_input_fields rest (dict_set field_key new field_map) st')"

definition define_input_field_map ::
  "string \<Rightarrow> fields_arg \<Rightarrow> nat \<Rightarrow> ('v, 'r) store
     \<Rightarrow> (error + (string \<times> nat) list) \<times> nat \<times> ('v, 'r) store" where
  "define_input_field_map tn provided n st =
     (case call_fields provided n of
        (FieldsOther, n') \<Rightarrow> (Inl (FieldsMustBeMapping tn), n', st)
      | (FieldsMapping d, n') \<Rightarrow>
          (if d = [] then (Inl (FieldsMustBeMapping tn), n', st)
           else (case define_input_fields d [] st of (res, st') \<Rightarrow> (res, n', st'))))"

subsection \<open>\<open>get_fields\<close>\<close>

text \<open>
  The lazy part of an Object, Interface or InputObject instance: its name, \<open>_fields\<close>
  as the constructor received it, the cache \<open>_field_map\<close> (\<open>None\<close> at
  construction), and the number of times that the producer in \<open>_fields\<close> has been
  invoked, which the model keeps to count invocations.
\<close>

record lazy_type =
  inst_name :: string
  provided_fields :: fields_arg
  cached_field_map :: "(string \<times> nat) list option"
  invocations :: nat

definition new_instance :: "string \<Rightarrow> fields_arg \<Rightarrow> lazy_type" where
  "new_instance name provided =
     \<lparr>inst_name = name, provided_fields = provided, cached_field_map = None, invocations = 0\<rparr>"

text \<open>
  \<open>GraphQLObjectType.get_fields\<close>. The assignment to \<open>_field_map\<close> happens only
  when \<open>define_field_map\<close> returns.
\<close>

definition GraphQLObjectType_get_fields ::
  "lazy_type \<Rightarrow> ('v, 'r) store \<Rightarrow> (error + (string \<times> nat) list) \<times> lazy_type \<times> ('v, 'r) store" where
  "GraphQLObjectType_get_fields self st =
     (case cached_field_map self of
        Some m \<Rightarrow> (Inr m, self, st)
      | None \<Rightarrow>
         (case define_field_map (inst_name self) (provided_fields self) (invocations self) st of
            (Inl e, n, st') \<Rightarrow> (Inl e, self\<lparr>invocations := n\<rparr>, st')
          | (Inr m, n, st') \<Rightarrow>
              (Inr m, self\<lparr>cached_field_map := Some m, invocations := n\<rparr>, st')))"

text \<open>\<open>GraphQLInterfaceType.get_fields\<close> has the same body.\<close>

definition GraphQLInterfaceType_get_fields ::
  "lazy_type \<Rightarrow> ('v, 'r) store \<Rightarrow> (error + (string \<times> nat) list) \<times> lazy_type \<times> ('v, 'r) store" where
  "GraphQLInterfaceType_get_fields self st =
     (case cached_field_map self of
        Some m \<Rightarrow> (Inr m, self, st)
      | None \<Rightarrow>
         (case define_field_map (inst_name self) (provided_fields self) (invocations self) st of
            (Inl e, n, st') \<Rightarrow> (Inl e, self\<lparr>invocations := n\<rparr>, st')
          | (Inr m, n, st') \<Rightarrow>
              (Inr m, self\<lparr>cached_field_map := Some m, invocations := n\<rparr>, st')))"

text \<open>\<open>GraphQLInputObjectType.get_fields\<close> calls its own \<open>_define_field_map\<close>.\<close>

definition GraphQLInputObjectType_get_fields ::
  "lazy_type \<Rightarrow> ('v, 'r) store \<Rightarrow> (error + (string \<times> nat) list) \<times> lazy_type \<times> ('v, 'r) store" where
  "GraphQLInputObjectType_get_fields self st =
     (case cached_field_map self of
        Some m \<Rightarrow> (Inr m, self, st)
      | None \<Rightarrow>
         (case define_input_field_map (inst_name self) (provided_fields self)
                 (invocations self) st of
            (Inl e, n, st') \<Rightarrow> (Inl e, self\<lparr>invocations := n\<rparr>, st')
          | (Inr m, n, st') \<Rightarrow>
              (Inr m, self\<lparr>cached_field_map := Some m, invocations := n\<rparr>, st')))"

text \<open>
  A caller that calls \<open>get_fields\<close> (any of the three, \<open>gf\<close>) \<open>n\<close> times in a
  row on one instance, going on after an \<open>AssertionError\<close>; it collects the results.
\<close>

fun call_repeatedly ::
  "nat \<Rightarrow> (lazy_type \<Rightarrow> 's \<Rightarrow> 'a \<times> lazy_type \<times> 's) \<Rightarrow> lazy_type \<Rightarrow> 's
     \<Rightarrow> 'a list \<times> lazy_type \<times> 's" where
  "call_repeatedly 0 gf self st = ([], self, st)"
| "call_repeatedly (Suc n) gf self st =
     (case gf self st of
        (r, self', st') \<Rightarrow>
          (case call_repeatedly n gf self' st' of
             (rs, self'', st'') \<Rightarrow> (r # rs, self'', st'')))"

subsection \<open>What a copy is\<close>

text \<open>
  The words of the specification, for the statements about \<open>define_field_map\<close>. The
  entries of \<open>field.args\<close> that the inner loop visits:
\<close>

fun arg_entries :: "args_value \<Rightarrow> (string \<times> nat) list" where
  "arg_entries (ArgsMapping d) = d"
| "arg_entries a = []"

text \<open>
  The references of the dict \<open>d\<close> denote objects of the store, and so do the
  references in the \<open>args\<close> of these objects (in Python a reference always does).
\<close>

definition valid_refs :: "('v, 'r) store \<Rightarrow> (string \<times> nat) list \<Rightarrow> bool" where
  "valid_refs st d =
     list_all (\<lambda>(k, f). f < length (field_objs st)
        \<and> list_all (\<lambda>(ak, a). a < length (arg_objs st))
             (arg_entries (field_args (field_objs st ! f)))) d"

text \<open>
  \<open>as\<close> are references to copies, made between the stores \<open>A\<close> and \<open>A'\<close>, of
  the arguments of the dict \<open>ad\<close>: new objects, pairwise distinct, each equal to the
  argument it copies but for the \<open>name\<close>, which is its key.
\<close>

definition args_copied ::
  "('v, 'r) GraphQLArgument list \<Rightarrow> ('v, 'r) GraphQLArgument list
     \<Rightarrow> (string \<times> nat) list \<Rightarrow> nat list \<Rightarrow> bool" where
  "args_copied A A' ad as =
     (length as = length ad \<and> distinct as
      \<and> (\<forall>q<length ad. length A \<le> as ! q \<and> as ! q < length A'
            \<and> A' ! (as ! q) = (A ! snd (ad ! q))\<lparr>arg_name := Some (fst (ad ! q))\<rparr>))"

text \<open>
  \<open>r\<close> refers to a copy, made between the stores \<open>st\<close> and \<open>st'\<close>, of the field
  \<open>f\<close> under the key \<open>k\<close>: a new object, equal to the field but for the
  \<open>name\<close>, which is \<open>k\<close>, and for \<open>args\<close>, which is a list of copies of its
  arguments.
\<close>

definition field_copied ::
  "('v, 'r) store \<Rightarrow> ('v, 'r) store \<Rightarrow> string \<Rightarrow> nat \<Rightarrow> nat \<Rightarrow> bool" where
  "field_copied st st' k f r =
     (length (field_objs st) \<le> r \<and> r < length (field_objs st')
      \<and> (\<exists>as. field_objs st' ! r
                 = (field_objs st ! f)\<lparr>field_name := Some k, field_args := ArgsList as\<rparr>
            \<and> args_copied (arg_objs st) (arg_objs st')
                 (arg_entries (field_args (field_objs st ! f))) as))"

text \<open>
  Every object of \<open>st\<close> is in \<open>st'\<close> under the same reference, unmodified.
\<close>

definition extends :: "('v, 'r) store \<Rightarrow> ('v, 'r) store \<Rightarrow> bool" where
  "extends st st' =
     (take (length (field_objs st)) (field_objs st') = field_objs st
      \<and> take (length (arg_objs st)) (arg_objs st') = arg_objs st
      \<and> take (length (input_objs st)) (input_objs st') = input_objs st)"

subsection \<open>Enum values\<close>

text \<open>
  The internal value of an enum value is any Python value; \<open>NoneValue\<close> is
  \<open>None\<close>.
\<close>

datatype pyvalue = NoneValue | StrValue string | IntValue int

record 'r GraphQLEnumValue =
  enum_name :: "string option"
  enum_value :: pyvalue
  enum_rest :: 'r

text \<open>
  \<open>GraphQLEnumValue.__init__(self, value=None, ...)\<close>: the parameter is \<open>None\<close>
  here when the caller passes no \<open>value\<close>, and the default applies.
\<close>

definition GraphQLEnumValue_init :: "pyvalue option \<Rightarrow> 'r \<Rightarrow> 'r GraphQLEnumValue" where
  "GraphQLEnumValue_init v rest =
     \<lparr>enum_name = None,
      enum_value = (case v of None \<Rightarrow> NoneValue | Some x \<Rightarrow> x),
      enum_rest = rest\<rparr>"

text \<open>
  The \<open>values\<close> parameter of an Enum type: a dict, or something else. An entry of
  the dict is a reference to a GraphQLEnumValue object or another Python value.
\<close>

datatype entry = EnumValueRef nat | OtherEntry

datatype values_arg = ValuesMapping "(string \<times> entry) list" | ValuesOther

text \<open>
  The loop of \<open>define_enum_values\<close> with the list \<open>values\<close> it builds:
  \<open>value.name = value_name\<close> assigns to the object of the caller.
\<close>

fun define_values ::
  "string \<Rightarrow> (string \<times> entry) list \<Rightarrow> nat list \<Rightarrow> 'r GraphQLEnumValue list
     \<Rightarrow> (error + nat list) \<times> 'r GraphQLEnumValue list" where
  "define_values tn [] values h = (Inr values, h)"
| "define_values tn ((value_name, value) # rest) values h =
     (case assert_valid_name value_name of
        Some e \<Rightarrow> (Inl e, h)
      | None \<Rightarrow>
         (case value of
            OtherEntry \<Rightarrow> (Inl (MustReferToEnumValue tn value_name), h)
          | EnumValueRef r \<Rightarrow>
              define_values tn rest (values @ [r])
                (h[r := (h ! r)\<lparr>enum_name := Some value_name\<rparr>])))"

definition define_enum_values ::
  "string \<Rightarrow> values_arg \<Rightarrow> 'r GraphQLEnumValue list
     \<Rightarrow> (error + nat list) \<times> 'r GraphQLEnumValue list" where
  "define_enum_values tn value_map h =
     (case value_map of
        ValuesOther \<Rightarrow> (Inl (ValuesMustBeMapping tn), h)
      | ValuesMapping d \<Rightarrow>
          (if d = [] then (Inl (ValuesMustBeMapping tn), h)
           else define_values tn d [] h))"

text \<open>\<open>GraphQLEnumType.__init__\<close>, which has no \<open>assert name\<close>.\<close>

definition GraphQLEnumType_init ::
  "nat \<Rightarrow> string \<Rightarrow> values_arg \<Rightarrow> 'r GraphQLEnumValue list
     \<Rightarrow> (error + 'v gtype) \<times> 'r GraphQLEnumValue list" where
  "GraphQLEnumType_init i name values h =
     (case assert_valid_name name of
        Some e \<Rightarrow> (Inl e, h)
      | None \<Rightarrow>
         (case define_enum_values name values h of
            (Inl e, h') \<Rightarrow> (Inl e, h')
          | (Inr vs, h') \<Rightarrow> (Inr (GraphQLEnumType i name vs), h')))"

text \<open>
  \<open>_get_name_lookup\<close>: the dict from \<open>value.name\<close> to the value, a later value
  replacing an earlier one of the same name. Reading \<open>name\<close> raises
  \<open>AttributeError\<close> on an object that has none. This is the loop; the method and its
  cache follow.
\<close>

fun name_lookup ::
  "'r GraphQLEnumValue list \<Rightarrow> nat list \<Rightarrow> (string \<rightharpoonup> nat) \<Rightarrow> (string \<rightharpoonup> nat) option" where
  "name_lookup h [] lookup = Some lookup"
| "name_lookup h (r # rs) lookup =
     (case enum_name (h ! r) of
        None \<Rightarrow> None
      | Some n \<Rightarrow> name_lookup h rs (lookup(n \<mapsto> r)))"

text \<open>
  \<open>_get_name_lookup\<close> with the attribute \<open>_name_lookup\<close> of the Enum type, which
  the constructor sets to \<open>None\<close>: the dict is computed at the first use and kept;
  it holds references to the value objects. The attribute is passed in, and returned as
  the call leaves it. When the loop raises, nothing is assigned.
\<close>

definition get_name_lookup ::
  "'r GraphQLEnumValue list \<Rightarrow> nat list \<Rightarrow> (string \<rightharpoonup> nat) option
     \<Rightarrow> (error + (string \<rightharpoonup> nat)) \<times> (string \<rightharpoonup> nat) option" where
  "get_name_lookup h vs cache =
     (case cache of
        Some lookup \<Rightarrow> (Inr lookup, cache)
      | None \<Rightarrow>
         (case name_lookup h vs Map.empty of
            None \<Rightarrow> (Inl AttributeError, None)
          | Some lookup \<Rightarrow> (Inr lookup, Some lookup)))"

text \<open>
  \<open>GraphQLEnumType.parse_literal\<close> on an \<open>ast.EnumValue\<close> node with its
  \<open>value\<close>, or on another node; falling off the end returns \<open>None\<close>. It reads
  \<open>value\<close> of the object that the dict holds, as the object is at the call.
\<close>

datatype ast_value = EnumValue string | OtherNode

fun GraphQLEnumType_parse_literal ::
  "'r GraphQLEnumValue list \<Rightarrow> 'v gtype \<Rightarrow> (string \<rightharpoonup> nat) option \<Rightarrow> ast_value
     \<Rightarrow> (error + pyvalue) \<times> (string \<rightharpoonup> nat) option" where
  "GraphQLEnumType_parse_literal h (GraphQLEnumType i n vs) cache (EnumValue s) =
     (case get_name_lookup h vs cache of
        (Inl e, cache') \<Rightarrow> (Inl e, cache')
      | (Inr lookup, cache') \<Rightarrow>
         (case lookup s of
            None \<Rightarrow> (Inr NoneValue, cache')
          | Some r \<Rightarrow> (Inr (enum_value (h ! r)), cache')))"
| "GraphQLEnumType_parse_literal h (GraphQLEnumType i n vs) cache OtherNode =
     (Inr NoneValue, cache)"
| "GraphQLEnumType_parse_literal h t cache a = (Inl AttributeError, cache)"

text \<open>
  The words of C10: the key that the loop assigns last to the object \<open>r\<close>, which is
  the key of the last entry of the dict that refers to \<open>r\<close>.
\<close>

fun last_key_of :: "nat \<Rightarrow> (string \<times> entry) list \<Rightarrow> string option" where
  "last_key_of r [] = None"
| "last_key_of r ((k, e) # d) =
     (case last_key_of r d of
        Some k' \<Rightarrow> Some k'
      | None \<Rightarrow> (if e = EnumValueRef r then Some k else None))"




section \<open>The asyncio middleware of \<open>graphql/core/execution/middlewares/asyncio.py\<close>\<close>

text \<open>
  What a resolver returns: a value that is available, a Deferred of the engine, or a
  pending computation of the host platform, which is an \<open>asyncio.Future\<close> or a
  coroutine. Futures and Deferreds are objects in stores, as above.
\<close>

datatype 'v resolved = Plain 'v | DeferredRef nat | FutureRef nat | CoroutineRef nat

text \<open>\<open>isinstance(result, Future) or iscoroutine(result)\<close>\<close>

fun is_host_pending :: "'v resolved \<Rightarrow> bool" where
  "is_host_pending (FutureRef f) = True"
| "is_host_pending (CoroutineRef c) = True"
| "is_host_pending r = False"

text \<open>
  An \<open>asyncio.Future\<close>, as its documentation has it: it is pending (\<open>None\<close>) or
  done, with a result, with an exception, or cancelled; and it holds the callbacks to
  schedule when it is done. The only callbacks registered here are the closures
  \<open>handle_future_result\<close> that \<open>process_future_result(deferred)\<close> returns; such
  a closure is given by the reference to its \<open>deferred\<close>.
\<close>

datatype ('v, 'e) outcome = Result 'v | Exception 'e | Cancelled

text \<open>
  An exception object: whether it is truthy, and the rest of it. An instance of
  \<open>BaseException\<close> is truthy unless its class defines \<open>__bool__\<close> or
  \<open>__len__\<close> and makes it falsy, as a class of exceptions that is also a collection
  does for an empty one.
\<close>

datatype 'x py_exception = PyException bool 'x

fun exception_truthy :: "'x py_exception \<Rightarrow> bool" where
  "exception_truthy (PyException b x) = b"

record ('v, 'e) future =
  outcome :: "('v, 'e) outcome option"
  done_callbacks :: "nat list"

text \<open>
  Modelled from the spec: the class \<open>Deferred\<close> of \<open>graphql.core.defer\<close>, which
  is not among the sources. Section 4.5: "states \<open>Pending \<rightarrow> Settled(Success(value))\<close>
  or \<open>Pending \<rightarrow> Settled(Failure(error))\<close>, terminal once settled, settled at most
  once."
\<close>

datatype ('v, 'e) deferred = Pending | Succeeded 'v | Failed 'e

text \<open>
  The futures, the Deferreds, and the callbacks that the event loop has scheduled to
  run (\<open>loop.call_soon\<close>), each with the future it is called with.
\<close>

record ('v, 'e) world =
  futures :: "('v, 'e) future list"
  deferreds :: "('v, 'e) deferred list"
  ready :: "(nat \<times> nat) list"

text \<open>
  What a callback can raise: the two errors of asyncio, the contract violation of a
  Deferred, and the exception of a future, which \<open>future.result()\<close> raises.
\<close>

datatype bridge_error = InvalidStateError | CancelledError | AlreadySettled | FutureException

text \<open>
  Modelled from the spec: the constructor of \<open>Deferred\<close>, not among the sources; a
  new Deferred is pending.
\<close>

definition Deferred_init :: "('v, 'e) world \<Rightarrow> nat \<times> ('v, 'e) world" where
  "Deferred_init w = (length (deferreds w), w\<lparr>deferreds := deferreds w @ [Pending]\<rparr>)"

text \<open>
  Modelled from the spec: \<open>Deferred.callback\<close> and \<open>Deferred.errback\<close>, not among
  the sources. Section 4.5: "\<open>callback(value)\<close> and \<open>errback(error)\<close> settle a
  pending instance (settling an already-settled instance is a contract violation)".
\<close>

definition callback :: "nat \<Rightarrow> 'v \<Rightarrow> ('v, 'e) world \<Rightarrow> bridge_error + ('v, 'e) world" where
  "callback d v w =
     (if deferreds w ! d = Pending
        then Inr (w\<lparr>deferreds := (deferreds w)[d := Succeeded v]\<rparr>)
      else Inl AlreadySettled)"

definition errback :: "nat \<Rightarrow> 'e \<Rightarrow> ('v, 'e) world \<Rightarrow> bridge_error + ('v, 'e) world" where
  "errback d e w =
     (if deferreds w ! d = Pending
        then Inr (w\<lparr>deferreds := (deferreds w)[d := Failed e]\<rparr>)
      else Inl AlreadySettled)"

text \<open>
  \<open>asyncio.ensure_future\<close> returns a Future as it is, and wraps a coroutine in a new
  Task, which is a pending Future that will be done with the outcome of the coroutine.
\<close>

fun ensure_future :: "'v resolved \<Rightarrow> ('v, 'e) world \<Rightarrow> nat \<times> ('v, 'e) world" where
  "ensure_future (FutureRef f) w = (f, w)"
| "ensure_future r w =
     (length (futures w), w\<lparr>futures := futures w @ [\<lparr>outcome = None, done_callbacks = []\<rparr>]\<rparr>)"

text \<open>
  \<open>Future.add_done_callback\<close>: the callback is kept while the future is pending, and
  scheduled at once when the future is done.
\<close>

definition add_done_callback :: "nat \<Rightarrow> nat \<Rightarrow> ('v, 'e) world \<Rightarrow> ('v, 'e) world" where
  "add_done_callback f d w =
     (if outcome (futures w ! f) = None
        then w\<lparr>futures := (futures w)
               [f := (futures w ! f)\<lparr>done_callbacks := done_callbacks (futures w ! f) @ [d]\<rparr>]\<rparr>
      else w\<lparr>ready := ready w @ [(d, f)]\<rparr>)"

text \<open>
  \<open>handle_future_result(future)\<close>, the closure of \<open>process_future_result(deferred)\<close>.
  \<open>future.exception()\<close> returns the exception of a done future, or \<open>None\<close> when it
  has a result; it raises \<open>CancelledError\<close> on a cancelled future and
  \<open>InvalidStateError\<close> on a pending one. \<open>if exception:\<close> tests the truthiness
  of what it returns: with a falsy exception the \<open>else\<close> branch runs, where
  \<open>future.result()\<close> raises the exception before \<open>deferred.callback\<close> is called.
\<close>

definition handle_future_result ::
  "nat \<Rightarrow> nat \<Rightarrow> ('v, 'x py_exception) world \<Rightarrow> bridge_error + ('v, 'x py_exception) world" where
  "handle_future_result d f w =
     (case outcome (futures w ! f) of
        None \<Rightarrow> Inl InvalidStateError
      | Some Cancelled \<Rightarrow> Inl CancelledError
      | Some (Exception e) \<Rightarrow>
          (if exception_truthy e then errback d e w else Inl FutureException)
      | Some (Result v) \<Rightarrow> callback d v w)"

text \<open>
  \<open>AsyncioExecutionMiddleware.run_resolve_fn(self, resolver, original_resolver)\<close>;
  the second parameter is not used.
\<close>

definition run_resolve_fn ::
  "(unit \<Rightarrow> 'v resolved) \<Rightarrow> ('v, 'e) world \<Rightarrow> 'v resolved \<times> ('v, 'e) world" where
  "run_resolve_fn resolver w =
     (let result = resolver () in
      if is_host_pending result
        then
         (case ensure_future result w of
            (future, w1) \<Rightarrow>
              (case Deferred_init w1 of
                 (d, w2) \<Rightarrow> (DeferredRef d, add_done_callback future d w2)))
      else (result, w))"

text \<open>
  The host platform. A pending future becomes done (\<open>set_result\<close>,
  \<open>set_exception\<close>, \<open>cancel\<close>, or the end of the coroutine of a Task), which
  schedules its callbacks; a done future raises \<open>InvalidStateError\<close>. The event loop
  then runs the scheduled callbacks in order; it logs an exception that a callback
  raises and goes on.
\<close>

definition complete ::
  "nat \<Rightarrow> ('v, 'e) outcome \<Rightarrow> ('v, 'e) world \<Rightarrow> bridge_error + ('v, 'e) world" where
  "complete f out w =
     (if outcome (futures w ! f) \<noteq> None then Inl InvalidStateError
      else Inr (w\<lparr>futures := (futures w)[f := \<lparr>outcome = Some out, done_callbacks = []\<rparr>],
                  ready := ready w @ map (\<lambda>d. (d, f)) (done_callbacks (futures w ! f))\<rparr>))"

fun run_callbacks ::
  "(nat \<times> nat) list \<Rightarrow> ('v, 'x py_exception) world \<Rightarrow> ('v, 'x py_exception) world" where
  "run_callbacks [] w = w"
| "run_callbacks ((d, f) # rest) w =
     (case handle_future_result d f w of
        Inl err \<Rightarrow> run_callbacks rest w
      | Inr w' \<Rightarrow> run_callbacks rest w')"

definition run_ready :: "('v, 'x py_exception) world \<Rightarrow> ('v, 'x py_exception) world" where
  "run_ready w = run_callbacks (ready w) (w\<lparr>ready := []\<rparr>)"

text \<open>
  What the callback of a pending Deferred leaves it as, by the outcome of the future.
\<close>

fun settlement :: "('v, 'x py_exception) outcome \<Rightarrow> ('v, 'x py_exception) deferred" where
  "settlement (Result v) = Succeeded v"
| "settlement (Exception e) = (if exception_truthy e then Failed e else Pending)"
| "settlement Cancelled = Pending"

text \<open>
  Every callback that is registered or scheduled belongs to a Deferred of the store.
\<close>

definition well_formed :: "('v, 'e) world \<Rightarrow> bool" where
  "well_formed w =
     (list_all (\<lambda>fu. list_all (\<lambda>d. d < length (deferreds w)) (done_callbacks fu)) (futures w)
      \<and> list_all (\<lambda>(d, f). d < length (deferreds w)) (ready w))"

section \<open>Values for the examples\<close>

subsection \<open>Values of the test suite\<close>




definition serialize_nothing :: "nat \<Rightarrow> nat" where
  "serialize_nothing v = 0"

definition GraphQLString :: "nat gtype" where
  "GraphQLString = GraphQLScalarType 1 ''String'' (Callable serialize_nothing)
     (Callable serialize_nothing) (Callable serialize_nothing)"






text \<open>
  Producers: \<open>lambda: {}\<close> and \<open>lambda: {'f': GraphQLField(GraphQLString)}\<close>
  of the tests, whose field is the object 0 of \<open>f_store\<close>. In \<open>shared_store\<close>
  one field, with one argument under the two keys \<open>x\<close> and \<open>y\<close>, is there to be
  used under two keys.
\<close>

definition empty_producer :: "nat \<Rightarrow> fields_value" where
  "empty_producer k = FieldsMapping []"

definition f_producer :: "nat \<Rightarrow> fields_value" where
  "f_producer k = FieldsMapping [(''f'', 0)]"

definition empty_store :: "(nat, unit) store" where
  "empty_store = \<lparr>field_objs = [], arg_objs = [], input_objs = []\<rparr>"

definition f_store :: "(nat, unit) store" where
  "f_store = \<lparr>field_objs = [GraphQLField_init GraphQLString ArgsNone ()], arg_objs = [],
               input_objs = [GraphQLInputObjectField_init GraphQLString ()]\<rparr>"

definition shared_store :: "(nat, unit) store" where
  "shared_store =
     \<lparr>field_objs = [GraphQLField_init GraphQLString (ArgsMapping [(''x'', 0), (''y'', 0)]) ()],
      arg_objs = [GraphQLArgument_init GraphQLString ()],
      input_objs = []\<rparr>"

text \<open>A resolver that returns the future 0.\<close>

definition future_resolver :: "unit \<Rightarrow> nat resolved" where
  "future_resolver u = FutureRef 0"

text \<open>
  A world with one pending future and nothing else; and an exception that is falsy, as
  an instance of \<open>class Errors(Exception): __len__ = lambda self: len(self.args)\<close>
  without arguments is.
\<close>

definition lone_future :: "(nat, string py_exception) world" where
  "lone_future =
     \<lparr>futures = [\<lparr>outcome = None, done_callbacks = []\<rparr>], deferreds = [], ready = []\<rparr>"

definition empty_errors :: "string py_exception" where
  "empty_errors = PyException False ''Errors()''"

definition boom :: "string py_exception" where
  "boom = PyException True ''RuntimeError(boom)''"


section \<open>Properties of the type graph\<close>

lemma named_modifiers: "is_named t \<Longrightarrow> modifiers t = []"
  by (cases t) (simp_all add: is_named_def)

lemma named_get_named_type: "is_named t \<Longrightarrow> get_named_type t = t"
  by (cases t) (simp_all add: is_named_def)

lemma same_class_named: "is_named a \<Longrightarrow> class_of a = class_of b \<Longrightarrow> is_named b"
  by (simp add: is_named_def)

lemma is_same_type_named:
  "is_named a \<Longrightarrow>
   is_same_type a b = (class_of a = class_of b \<and> type_name a = type_name b)"
  by (cases a) (simp_all add: is_named_def)

text \<open>Types that \<open>is_same_type\<close> accepts carry the same stack of modifiers.\<close>

lemma same_type_modifiers: "is_same_type a b \<Longrightarrow> modifiers a = modifiers b"
proof (induction a arbitrary: b)
  case (GraphQLList a)
  then show ?case by (cases b) simp_all
next
  case (GraphQLNonNull a)
  then show ?case by (cases b) simp_all
qed (simp_all add: named_modifiers same_class_named is_named_def)

lemma is_same_type_List:
  "is_same_type (GraphQLList t) c = (\<exists>u. c = GraphQLList u \<and> is_same_type t u)"
  by (cases c) simp_all

lemma is_same_type_NonNull:
  "is_same_type (GraphQLNonNull t) c = (\<exists>u. c = GraphQLNonNull u \<and> is_same_type t u)"
  by (cases c) simp_all

lemma not_same_type_wrapped:
  "\<not> is_same_type x (GraphQLNonNull x)" "\<not> is_same_type x (GraphQLList x)"
  "\<not> is_same_type (GraphQLNonNull x) x" "\<not> is_same_type (GraphQLList x) x"
  using same_type_modifiers [of x "GraphQLNonNull x"]
    same_type_modifiers [of x "GraphQLList x"]
    same_type_modifiers [of "GraphQLNonNull x" x]
    same_type_modifiers [of "GraphQLList x" x]
  by auto

text \<open>
  In closed form: two types are the same type exactly when they carry the same stack
  of modifiers around named types of the same class and the same name.
\<close>

lemma is_same_type_closed_form_named:
  assumes "is_named a"
  shows "is_same_type a b \<longleftrightarrow>
     modifiers a = modifiers b
     \<and> class_of (get_named_type a) = class_of (get_named_type b)
     \<and> type_name (get_named_type a) = type_name (get_named_type b)"
  using assms
  by (cases b)
    (auto simp: is_same_type_named named_modifiers named_get_named_type is_named_def)

lemma is_same_type_closed_form:
  "is_same_type a b \<longleftrightarrow>
     modifiers a = modifiers b
     \<and> class_of (get_named_type a) = class_of (get_named_type b)
     \<and> type_name (get_named_type a) = type_name (get_named_type b)"
proof (induction a arbitrary: b)
  case (GraphQLList a)
  then show ?case by (cases b) simp_all
next
  case (GraphQLNonNull a)
  then show ?case by (cases b) simp_all
qed (rule is_same_type_closed_form_named, simp add: is_named_def)+

text \<open>
  C1. \<open>is_same_type\<close> is structural equality. A named type \<open>a\<close> is the same type
  as \<open>b\<close> exactly when \<open>b\<close> is of the same class and has the same name, whatever
  the object identities and the other attributes of the two (so never when the class or
  the name differs, and never when \<open>b\<close> is a modifier); a \<open>GraphQLList\<close> (a
  \<open>GraphQLNonNull\<close>) is the same type as \<open>c\<close> exactly when \<open>c\<close> is a
  \<open>GraphQLList\<close> (a \<open>GraphQLNonNull\<close>) and the wrapped types are the same type;
  altogether, two types are the same type exactly when they have the same stack of
  modifiers around named types of the same class and name; no type is the same type as
  its own \<open>GraphQLNonNull\<close> or \<open>GraphQLList\<close> wrapping, in either order of the
  arguments.
\<close>

theorem is_same_type_structural:
  "(is_named a \<longrightarrow>
      (is_same_type a b \<longleftrightarrow> class_of a = class_of b \<and> type_name a = type_name b))
   \<and> (is_same_type (GraphQLList t) c \<longleftrightarrow> (\<exists>u. c = GraphQLList u \<and> is_same_type t u))
   \<and> (is_same_type (GraphQLNonNull t) c \<longleftrightarrow> (\<exists>u. c = GraphQLNonNull u \<and> is_same_type t u))
   \<and> (is_same_type a b \<longleftrightarrow>
        modifiers a = modifiers b
        \<and> class_of (get_named_type a) = class_of (get_named_type b)
        \<and> type_name (get_named_type a) = type_name (get_named_type b))
   \<and> \<not> is_same_type x (GraphQLNonNull x) \<and> \<not> is_same_type x (GraphQLList x)
   \<and> \<not> is_same_type (GraphQLNonNull x) x \<and> \<not> is_same_type (GraphQLList x) x"
  using is_same_type_named [of a b] is_same_type_List [of t c] is_same_type_NonNull [of t c]
    is_same_type_closed_form [of a b] not_same_type_wrapped [of x]
  by blast

text \<open>
  Two scalars named \<open>String\<close> that are distinct objects with different attributes are
  the same type; a scalar \<open>String\<close> and a scalar \<open>Int\<close> are not, nor are an Object
  type and an Interface type of one name; and \<open>String\<close> against
  \<open>NonNull(String)\<close>, \<open>List(String)\<close> against \<open>NonNull(List(String))\<close>.
\<close>

theorem is_same_type_structural_witness:
  "is_named (GraphQLScalarType 1 ''String'' (Callable (\<lambda>v. v)) PyNone PyNone :: nat gtype)
   \<and> oid (GraphQLScalarType 1 ''String'' (Callable (\<lambda>v. v)) PyNone PyNone :: nat gtype)
       \<noteq> oid (GraphQLScalarType 2 ''String'' (Callable Suc) PyNone PyNone :: nat gtype)
   \<and> is_same_type (GraphQLScalarType 1 ''String'' (Callable (\<lambda>v. v)) PyNone PyNone)
        (GraphQLScalarType 2 ''String'' (Callable Suc) PyNone PyNone :: nat gtype)
   \<and> \<not> is_same_type (GraphQLScalarType 1 ''String'' (Callable (\<lambda>v. v)) PyNone PyNone)
        (GraphQLScalarType 1 ''Int'' (Callable (\<lambda>v. v)) PyNone PyNone :: nat gtype)
   \<and> \<not> is_same_type (GraphQLObjectType 3 ''A'' PyNone)
        (GraphQLInterfaceType 4 ''A'' PyNone [] :: nat gtype)
   \<and> \<not> is_same_type (GraphQLScalarType 1 ''String'' (Callable (\<lambda>v. v)) PyNone PyNone)
        (GraphQLNonNull (GraphQLScalarType 1 ''String'' (Callable (\<lambda>v. v)) PyNone PyNone :: nat gtype))
   \<and> \<not> is_same_type (GraphQLList (GraphQLScalarType 1 ''String'' (Callable (\<lambda>v. v)) PyNone PyNone))
        (GraphQLNonNull (GraphQLList
          (GraphQLScalarType 1 ''String'' (Callable (\<lambda>v. v)) PyNone PyNone :: nat gtype)))"
proof -
  let ?s = "GraphQLScalarType 1 ''String'' (Callable (\<lambda>v. v)) PyNone PyNone :: nat gtype"
  have n: "is_named ?s" "is_named (GraphQLObjectType 3 ''A'' PyNone :: nat gtype)"
    by (simp_all add: is_named_def)
  from is_same_type_structural
    [of ?s "GraphQLScalarType 2 ''String'' (Callable Suc) PyNone PyNone", THEN conjunct1] n
  have 1: "is_same_type ?s (GraphQLScalarType 2 ''String'' (Callable Suc) PyNone PyNone)"
    by simp
  from is_same_type_structural
    [of ?s "GraphQLScalarType 1 ''Int'' (Callable (\<lambda>v. v)) PyNone PyNone", THEN conjunct1] n
  have 2: "\<not> is_same_type ?s (GraphQLScalarType 1 ''Int'' (Callable (\<lambda>v. v)) PyNone PyNone)"
    by simp
  from is_same_type_structural
    [of "GraphQLObjectType 3 ''A'' PyNone :: nat gtype" "GraphQLInterfaceType 4 ''A'' PyNone []",
      THEN conjunct1] n
  have 3: "\<not> is_same_type (GraphQLObjectType 3 ''A'' PyNone)
      (GraphQLInterfaceType 4 ''A'' PyNone [] :: nat gtype)"
    by simp
  from is_same_type_structural [of ?s ?s ?s ?s ?s]
  have 4: "\<not> is_same_type ?s (GraphQLNonNull ?s)"
    by blast
  from is_same_type_structural [of ?s ?s ?s ?s "GraphQLList ?s"]
  have 5: "\<not> is_same_type (GraphQLList ?s) (GraphQLNonNull (GraphQLList ?s))"
    by blast
  have 6: "oid ?s \<noteq> oid (GraphQLScalarType 2 ''String'' (Callable Suc) PyNone PyNone :: nat gtype)"
    by simp
  from n(1) 6 1 2 3 4 5 show ?thesis
    by (intro conjI)
qed

lemma wrap_modifiers: "wrap (modifiers t) (get_named_type t) = t"
  by (induction t) simp_all

lemma get_named_type_named: "is_named (get_named_type t)"
  by (induction t) (simp_all add: is_named_def)

lemma get_named_type_wrap: "is_named n \<Longrightarrow> get_named_type (wrap ms n) = n"
  by (induction ms n rule: wrap.induct) (simp_all add: named_get_named_type)

text \<open>
  C2. Every type is a stack of \<open>List\<close>/\<open>NonNull\<close> modifiers around a named type; and
  whenever \<open>t\<close> is the modifiers \<open>ms\<close> around the named type \<open>n\<close>, \<open>t\<close> is an output
  type exactly when \<open>n\<close> is a Scalar, Object, Interface, Union or Enum, and an input
  type exactly when \<open>n\<close> is a Scalar, Enum or InputObject.
\<close>

theorem classification_by_stripped_form:
  "(\<exists>ms n. is_named n \<and> t = wrap ms n)
   \<and> (\<forall>ms n. is_named n \<and> t = wrap ms n \<longrightarrow>
        (is_output_type t \<longleftrightarrow> class_of n \<in> {ScalarC, ObjectC, InterfaceC, UnionC, EnumC})
        \<and> (is_input_type t \<longleftrightarrow> class_of n \<in> {ScalarC, EnumC, InputObjectC}))"
proof (intro conjI allI impI)
  show "\<exists>ms n. is_named n \<and> t = wrap ms n"
    using get_named_type_named [of t] wrap_modifiers [of t] by metis
next
  fix ms n
  assume "is_named n \<and> t = wrap ms n"
  then have "get_named_type t = n"
    by (simp add: get_named_type_wrap)
  then show "is_output_type t \<longleftrightarrow> class_of n \<in> {ScalarC, ObjectC, InterfaceC, UnionC, EnumC}"
    and "is_input_type t \<longleftrightarrow> class_of n \<in> {ScalarC, EnumC, InputObjectC}"
    by (simp_all add: is_output_type_def is_input_type_def)
qed

text \<open>
  \<open>NonNull(List(O))\<close> for an Object type \<open>O\<close> is an output type and no input type;
  for an InputObject it is the other way round; for an Enum it is both.
\<close>

theorem classification_by_stripped_form_witness:
  "is_named (GraphQLObjectType 1 ''O'' PyNone :: nat gtype)
   \<and> GraphQLNonNull (GraphQLList (GraphQLObjectType 1 ''O'' PyNone :: nat gtype))
       = wrap [NonNullOf, ListOf] (GraphQLObjectType 1 ''O'' PyNone)
   \<and> is_output_type (GraphQLNonNull (GraphQLList (GraphQLObjectType 1 ''O'' PyNone :: nat gtype)))
   \<and> \<not> is_input_type (GraphQLNonNull (GraphQLList (GraphQLObjectType 1 ''O'' PyNone :: nat gtype)))"
proof -
  let ?n = "GraphQLObjectType 1 ''O'' PyNone :: nat gtype"
  have n: "is_named ?n" and w: "GraphQLNonNull (GraphQLList ?n) = wrap [NonNullOf, ListOf] ?n"
    by (simp_all add: is_named_def)
  from classification_by_stripped_form [of "GraphQLNonNull (GraphQLList ?n)"]
  have "\<forall>ms n. is_named n \<and> GraphQLNonNull (GraphQLList ?n) = wrap ms n \<longrightarrow>
      (is_output_type (GraphQLNonNull (GraphQLList ?n))
         \<longleftrightarrow> class_of n \<in> {ScalarC, ObjectC, InterfaceC, UnionC, EnumC})
      \<and> (is_input_type (GraphQLNonNull (GraphQLList ?n))
         \<longleftrightarrow> class_of n \<in> {ScalarC, EnumC, InputObjectC})"
    by (rule conjunct2)
  then have "(is_output_type (GraphQLNonNull (GraphQLList ?n))
         \<longleftrightarrow> class_of ?n \<in> {ScalarC, ObjectC, InterfaceC, UnionC, EnumC})
      \<and> (is_input_type (GraphQLNonNull (GraphQLList ?n))
         \<longleftrightarrow> class_of ?n \<in> {ScalarC, EnumC, InputObjectC})"
    using n w by blast
  then show ?thesis
    using n w by simp
qed


section \<open>Properties of the constructors and of type resolution\<close>


















section \<open>Properties of enum values\<close>

text \<open>
  C3. The docstring of \<open>GraphQLEnumType\<close> says: "If a value is not provided in a
  definition, the name of the enum value will be used as it's internal value." The code
  at the enum of the test suite, \<open>GraphQLEnumType('SomeEnum', {'ONLY':
  GraphQLEnumValue()})\<close>: construction names the value \<open>ONLY\<close> and leaves its
  internal value \<open>None\<close>, which is what the first \<open>parse_literal\<close> of the new
  enum returns for the literal \<open>ONLY\<close>, having found the value under that name; it
  is not the string \<open>ONLY\<close>.
\<close>

theorem enum_value_default_stays_None:
  "(GraphQLEnumType_init 9 ''SomeEnum'' (ValuesMapping [(''ONLY'', EnumValueRef 0)])
      [GraphQLEnumValue_init None ()] :: (error + nat gtype) \<times> unit GraphQLEnumValue list)
   = (Inr (GraphQLEnumType 9 ''SomeEnum'' [0]),
      [\<lparr>enum_name = Some ''ONLY'', enum_value = NoneValue, enum_rest = ()\<rparr>])
   \<and> fst (GraphQLEnumType_parse_literal
            [\<lparr>enum_name = Some ''ONLY'', enum_value = NoneValue, enum_rest = ()\<rparr>]
            (GraphQLEnumType 9 ''SomeEnum'' [0] :: nat gtype) None (EnumValue ''ONLY''))
     = Inr NoneValue
   \<and> the (snd (GraphQLEnumType_parse_literal
            [\<lparr>enum_name = Some ''ONLY'', enum_value = NoneValue, enum_rest = ()\<rparr>]
            (GraphQLEnumType 9 ''SomeEnum'' [0] :: nat gtype) None (EnumValue ''ONLY'')))
         ''ONLY''
     = Some 0
   \<and> NoneValue \<noteq> StrValue ''ONLY''"
  by (simp add: GraphQLEnumType_init_def define_enum_values_def assert_valid_name_def
      name_start_def name_char_def GraphQLEnumValue_init_def get_name_lookup_def)

text \<open>
  What a successful run of the loop of \<open>define_enum_values\<close> leaves: the list of
  the references of the dict, in order, after \<open>values\<close>; a store of the same
  length, in which the object \<open>r\<close> differs from what it was in its \<open>name\<close> alone,
  which is the last key assigned to it.
\<close>

lemma define_values_success:
  "define_values tn d values h = (Inr vs, h') \<Longrightarrow>
     (\<exists>ws. vs = values @ ws \<and> map snd d = map EnumValueRef ws)
     \<and> length h' = length h
     \<and> (\<forall>r<length h. h' ! r =
           (case last_key_of r d of
              None \<Rightarrow> h ! r
            | Some k \<Rightarrow> (h ! r)\<lparr>enum_name := Some k\<rparr>))"
proof (induction d arbitrary: "values" h)
  case Nil
  then show ?case by simp
next
  case (Cons e d)
  obtain k x where e: "e = (k, x)" by (cases e)
  from Cons.prems e obtain r0 where x: "x = EnumValueRef r0"
    by (cases x) (auto split: option.splits)
  let ?h1 = "h[r0 := (h ! r0)\<lparr>enum_name := Some k\<rparr>]"
  from Cons.prems e x have run: "define_values tn d (values @ [r0]) ?h1 = (Inr vs, h')"
    by (simp split: option.splits)
  note ih = Cons.IH [OF run]
  from ih obtain ws where ws: "vs = (values @ [r0]) @ ws" "map snd d = map EnumValueRef ws"
    by blast
  have 1: "\<exists>ws. vs = values @ ws \<and> map snd (e # d) = map EnumValueRef ws"
    using ws e x by (intro exI [of _ "r0 # ws"]) simp
  have 2: "length h' = length h"
    using ih by simp
  have 3: "h' ! r = (case last_key_of r (e # d) of
              None \<Rightarrow> h ! r
            | Some k \<Rightarrow> (h ! r)\<lparr>enum_name := Some k\<rparr>)" if r: "r < length h" for r
  proof -
    from ih r have h': "h' ! r = (case last_key_of r d of
              None \<Rightarrow> ?h1 ! r
            | Some k \<Rightarrow> (?h1 ! r)\<lparr>enum_name := Some k\<rparr>)"
      by simp
    show ?thesis
    proof (cases "r = r0")
      case True
      with h' r show ?thesis
        by (simp add: e x split: option.splits)
    next
      case False
      with h' r show ?thesis
        by (simp add: e x split: option.splits)
    qed
  qed
  from 1 2 3 show ?case by blast
qed

lemma last_key_of_entry:
  "p < length d \<Longrightarrow> snd (d ! p) = EnumValueRef r \<Longrightarrow> last_key_of r d \<noteq> None"
proof (induction d arbitrary: p)
  case Nil
  then show ?case by simp
next
  case (Cons e d)
  obtain k x where e: "e = (k, x)" by (cases e)
  show ?case
  proof (cases p)
    case 0
    with Cons.prems e show ?thesis by (simp split: option.splits)
  next
    case (Suc p')
    with Cons.prems have "last_key_of r d \<noteq> None"
      by (intro Cons.IH [of p']) simp_all
    then show ?thesis by (auto simp: e split: option.splits)
  qed
qed

text \<open>
  C10. When \<open>define_enum_values\<close> succeeds on the dict \<open>d\<close>, its result
  \<open>vs\<close> holds the very references of \<open>d\<close>, in order: nothing is copied, the
  store has the objects it had, and each differs from what it was only in \<open>name\<close>,
  the key assigned to it last. So when two keys of \<open>d\<close> (at the positions \<open>p\<close> and
  \<open>q\<close>) refer to one GraphQLEnumValue object, the two entries of the result are that
  one object, and the name both bear is the last key of \<open>d\<close> that refers to it.
\<close>

theorem enum_values_named_in_place:
  assumes "define_enum_values tn (ValuesMapping d) h = (Inr vs, h')"
  shows "map snd d = map EnumValueRef vs \<and> length h' = length h
    \<and> (\<forall>r<length h. h' ! r =
           (case last_key_of r d of
              None \<Rightarrow> h ! r
            | Some k \<Rightarrow> (h ! r)\<lparr>enum_name := Some k\<rparr>))
    \<and> (\<forall>p q. p < length d \<and> q < length d \<and> snd (d ! p) = snd (d ! q) \<and> vs ! p < length h \<longrightarrow>
          vs ! p = vs ! q
          \<and> last_key_of (vs ! p) d \<noteq> None
          \<and> enum_name (h' ! (vs ! p)) = last_key_of (vs ! p) d
          \<and> enum_name (h' ! (vs ! q)) = last_key_of (vs ! p) d)"
proof -
  from assms have run: "define_values tn d [] h = (Inr vs, h')"
    by (simp add: define_enum_values_def split: if_splits)
  note s = define_values_success [OF run]
  from s have m: "map snd d = map EnumValueRef vs" by simp
  have len: "length vs = length d"
    using m by (metis length_map)
  have key: "last_key_of (vs ! p) d \<noteq> None" if "p < length d" for p
  proof -
    from that m len have "snd (d ! p) = EnumValueRef (vs ! p)"
      by (metis nth_map)
    with that show ?thesis
      by (rule last_key_of_entry)
  qed
  have same: "vs ! p = vs ! q" if "p < length d" "q < length d" "snd (d ! p) = snd (d ! q)" for p q
  proof -
    from that m len have "EnumValueRef (vs ! p) = EnumValueRef (vs ! q)"
      by (metis nth_map)
    then show ?thesis by simp
  qed
  have name: "enum_name (h' ! r) = last_key_of r d" if "r < length h" "last_key_of r d \<noteq> None" for r
  proof -
    from that obtain k where k: "last_key_of r d = Some k" by blast
    from s that(1) have "h' ! r = (case last_key_of r d of
              None \<Rightarrow> h ! r
            | Some k \<Rightarrow> (h ! r)\<lparr>enum_name := Some k\<rparr>)"
      by simp
    with k show ?thesis by simp
  qed
  have shared: "vs ! p = vs ! q \<and> last_key_of (vs ! p) d \<noteq> None
      \<and> enum_name (h' ! (vs ! p)) = last_key_of (vs ! p) d
      \<and> enum_name (h' ! (vs ! q)) = last_key_of (vs ! p) d"
    if "p < length d \<and> q < length d \<and> snd (d ! p) = snd (d ! q) \<and> vs ! p < length h" for p q
  proof -
    from that have eq: "vs ! p = vs ! q" by (simp add: same)
    from that have k: "last_key_of (vs ! p) d \<noteq> None" by (simp add: key)
    from that k have "enum_name (h' ! (vs ! p)) = last_key_of (vs ! p) d" by (simp add: name)
    with eq k show ?thesis by simp
  qed
  from s have 2: "length h' = length h" and 3: "\<forall>r<length h. h' ! r =
           (case last_key_of r d of
              None \<Rightarrow> h ! r
            | Some k \<Rightarrow> (h ! r)\<lparr>enum_name := Some k\<rparr>)"
    by simp_all
  from shared have 4: "\<forall>p q. p < length d \<and> q < length d \<and> snd (d ! p) = snd (d ! q)
          \<and> vs ! p < length h \<longrightarrow>
          vs ! p = vs ! q
          \<and> last_key_of (vs ! p) d \<noteq> None
          \<and> enum_name (h' ! (vs ! p)) = last_key_of (vs ! p) d
          \<and> enum_name (h' ! (vs ! q)) = last_key_of (vs ! p) d"
    by (intro allI impI)
  from m 2 3 4 show ?thesis
    by (intro conjI)
qed

text \<open>
  \<open>{'RED': v, 'GREEN': w, 'CRIMSON': v}\<close> with one object \<open>v\<close> under two keys:
  the result is \<open>[v, w, v]\<close> and \<open>v\<close> is named \<open>CRIMSON\<close>.
\<close>

theorem enum_values_named_in_place_witness:
  "define_enum_values ''RGB''
     (ValuesMapping [(''RED'', EnumValueRef 0), (''GREEN'', EnumValueRef 1), (''CRIMSON'', EnumValueRef 0)])
     [GraphQLEnumValue_init (Some (IntValue 0)) (), GraphQLEnumValue_init (Some (IntValue 1)) ()]
   = (Inr [0, 1, 0],
      [\<lparr>enum_name = Some ''CRIMSON'', enum_value = IntValue 0, enum_rest = ()\<rparr>,
       \<lparr>enum_name = Some ''GREEN'', enum_value = IntValue 1, enum_rest = ()\<rparr>])
   \<and> last_key_of 0 [(''RED'', EnumValueRef 0), (''GREEN'', EnumValueRef 1), (''CRIMSON'', EnumValueRef 0)]
     = Some ''CRIMSON''"
proof -
  let ?d = "[(''RED'', EnumValueRef 0), (''GREEN'', EnumValueRef 1), (''CRIMSON'', EnumValueRef 0)]"
  let ?h = "[GraphQLEnumValue_init (Some (IntValue 0)) (), GraphQLEnumValue_init (Some (IntValue 1)) ()]"
  have n: "NAME_PATTERN_match ''RED''" "NAME_PATTERN_match ''GREEN''" "NAME_PATTERN_match ''CRIMSON''"
    by (simp_all add: name_start_def name_char_def)
  let ?h' = "[\<lparr>enum_name = Some ''CRIMSON'', enum_value = IntValue 0, enum_rest = ()\<rparr>,
       \<lparr>enum_name = Some ''GREEN'', enum_value = IntValue 1, enum_rest = ()\<rparr>]"
  have run: "define_enum_values ''RGB'' (ValuesMapping ?d) ?h = (Inr [0, 1, 0], ?h')"
    using n by (simp add: define_enum_values_def assert_valid_name_def GraphQLEnumValue_init_def)
  from enum_values_named_in_place
    [OF run, THEN conjunct2, THEN conjunct2, THEN conjunct2, rule_format, of 0 2]
  have "last_key_of 0 ?d = Some ''CRIMSON''"
    by simp
  with run show ?thesis
    by simp
qed


section \<open>Properties of field-map resolution\<close>

lemma take_eq_append: "take (length xs) ys = xs \<longleftrightarrow> (\<exists>zs. ys = xs @ zs)"
  by (metis append_eq_conv_conj append_take_drop_id)

lemma extends_refl: "extends st st"
  by (simp add: extends_def)

lemma extends_trans: "extends a b \<Longrightarrow> extends b c \<Longrightarrow> extends a c"
  unfolding extends_def take_eq_append by auto

lemma extends_field_nth:
  "extends st st' \<Longrightarrow> r < length (field_objs st) \<Longrightarrow> field_objs st' ! r = field_objs st ! r"
  unfolding extends_def take_eq_append by (auto simp: nth_append)

lemma extends_arg_nth:
  "extends st st' \<Longrightarrow> a < length (arg_objs st) \<Longrightarrow> arg_objs st' ! a = arg_objs st ! a"
  unfolding extends_def take_eq_append by (auto simp: nth_append)

lemma extends_length:
  "extends st st' \<Longrightarrow> length (field_objs st) \<le> length (field_objs st')
     \<and> length (arg_objs st) \<le> length (arg_objs st')"
  unfolding extends_def take_eq_append by auto

lemma define_args_frame:
  "define_args tn fn ad args A = (res, A') \<Longrightarrow> \<exists>X. A' = A @ X"
proof (induction ad arbitrary: args A)
  case Nil
  then show ?case by simp
next
  case (Cons e ad)
  obtain k a where e: "e = (k, a)" by (cases e)
  show ?case
  proof (cases "assert_valid_name k = None \<and> is_input_type (arg_type (A ! a))")
    case True
    with Cons.prems e
    have "define_args tn fn ad (args @ [length A]) (A @ [(A ! a)\<lparr>arg_name := Some k\<rparr>]) = (res, A')"
      by simp
    from Cons.IH [OF this] show ?thesis by auto
  next
    case False
    with Cons.prems e have "A' = A"
      by (auto split: option.splits if_splits)
    then show ?thesis by simp
  qed
qed

lemma define_args_success:
  "define_args tn fn ad args A = (Inr as, A') \<Longrightarrow> list_all (\<lambda>(k, a). a < length A) ad \<Longrightarrow>
   as = args @ [length A ..< length A + length ad]
   \<and> A' = A @ map (\<lambda>(k, a). (A ! a)\<lparr>arg_name := Some k\<rparr>) ad"
proof (induction ad arbitrary: args A)
  case Nil
  then show ?case by simp
next
  case (Cons e ad)
  obtain k a where e: "e = (k, a)" by (cases e)
  let ?A1 = "A @ [(A ! a)\<lparr>arg_name := Some k\<rparr>]"
  from Cons.prems(1) e have run: "define_args tn fn ad (args @ [length A]) ?A1 = (Inr as, A')"
    by (simp split: option.splits if_splits)
  from Cons.prems(2) e have v: "list_all (\<lambda>(k, a). a < length ?A1) ad"
    by (auto simp: list_all_iff)
  from Cons.IH [OF run v]
  have as: "as = (args @ [length A]) @ [length ?A1 ..< length ?A1 + length ad]"
    and A': "A' = ?A1 @ map (\<lambda>(k, a). (?A1 ! a)\<lparr>arg_name := Some k\<rparr>) ad"
    by simp_all
  have m: "map (\<lambda>(k, a). (?A1 ! a)\<lparr>arg_name := Some k\<rparr>) ad
      = map (\<lambda>(k, a). (A ! a)\<lparr>arg_name := Some k\<rparr>) ad"
    using Cons.prems(2) e by (auto simp: list_all_iff nth_append)
  have "[length A ..< length A + length (e # ad)]
      = length A # [Suc (length A) ..< Suc (length A) + length ad]"
    by (subst upt_rec) simp
  with as A' m e show ?case by simp
qed

lemma define_args_copied:
  assumes "define_args tn fn ad [] A = (Inr as, A')" "list_all (\<lambda>(k, a). a < length A) ad"
  shows "args_copied A A' ad as"
proof -
  from define_args_success [OF assms]
  have as: "as = [length A ..< length A + length ad]"
    and A': "A' = A @ map (\<lambda>(k, a). (A ! a)\<lparr>arg_name := Some k\<rparr>) ad"
    by simp_all
  show ?thesis
    unfolding args_copied_def as A'
    by (auto simp: nth_append split: prod.splits)
qed

lemma define_field_frame:
  assumes "define_field tn k f st = (res, st1)"
  shows "extends st st1"
proof (cases "assert_valid_name k")
  case (Some e)
  with assms show ?thesis by (simp add: define_field_def extends_refl)
next
  case None
  let ?field = "(field_objs st ! f)\<lparr>field_name := Some k\<rparr>"
  let ?st1 = "st\<lparr>field_objs := field_objs st @ [?field]\<rparr>"
  show ?thesis
  proof (cases "is_output_type (field_type ?field) \<and> args_truthy (field_args ?field)")
    case False
    with assms None show ?thesis
      by (auto simp: define_field_def Let_def extends_def split: if_splits)
  next
    case True
    show ?thesis
    proof (cases "field_args ?field")
      case (ArgsMapping d)
      obtain r A where da: "define_args tn k d [] (arg_objs ?st1) = (r, A)"
        by (cases "define_args tn k d [] (arg_objs ?st1)")
      from define_args_frame [OF da] obtain X where X: "A = arg_objs st @ X"
        by auto
      from assms None True ArgsMapping da X show ?thesis
        by (cases r) (auto simp: define_field_def Let_def extends_def)
    qed (use assms None True in \<open>auto simp: define_field_def Let_def extends_def\<close>)
  qed
qed

lemma define_field_success:
  assumes run: "define_field tn k f st = (Inr r, st1)"
    and valid: "list_all (\<lambda>(ak, a). a < length (arg_objs st))
                  (arg_entries (field_args (field_objs st ! f)))"
  shows "r = length (field_objs st) \<and> length (field_objs st1) = Suc (length (field_objs st))
    \<and> field_copied st st1 k f r"
proof -
  let ?field = "(field_objs st ! f)\<lparr>field_name := Some k\<rparr>"
  let ?st1 = "st\<lparr>field_objs := field_objs st @ [?field]\<rparr>"
  from run have None: "assert_valid_name k = None"
    by (auto simp: define_field_def split: option.splits)
  from run None have out: "is_output_type (field_type ?field)"
    by (auto simp: define_field_def Let_def split: if_splits)
  show ?thesis
  proof (cases "args_truthy (field_args ?field)")
    case False
    then have "arg_entries (field_args (field_objs st ! f)) = []"
      by (cases "field_args (field_objs st ! f)") simp_all
    with run None out False show ?thesis
      by (auto simp: define_field_def Let_def field_copied_def args_copied_def)
  next
    case True
    with run None out obtain d where d: "field_args ?field = ArgsMapping d"
      by (cases "field_args ?field") (auto simp: define_field_def Let_def)
    obtain x A where da: "define_args tn k d [] (arg_objs st) = (x, A)"
      by (cases "define_args tn k d [] (arg_objs st)")
    from run None out True d da obtain as where x: "x = Inr as"
      by (cases x) (auto simp: define_field_def Let_def)
    from d valid have "list_all (\<lambda>(ak, a). a < length (arg_objs st)) d"
      by simp
    with da x have c: "args_copied (arg_objs st) A d as"
      by (simp add: define_args_copied)
    from run None out True d da x
    have st1: "st1 = st\<lparr>field_objs := field_objs st @ [?field\<lparr>field_args := ArgsList as\<rparr>],
                        arg_objs := A\<rparr>" and r: "r = length (field_objs st)"
      by (auto simp: define_field_def Let_def)
    from d have "arg_entries (field_args (field_objs st ! f)) = d"
      by simp
    with c st1 r show ?thesis
      by (auto simp: field_copied_def)
  qed
qed

lemma field_copied_later:
  assumes "field_copied st st1 k f r" "extends st1 st'"
  shows "field_copied st st' k f r"
proof -
  from assms(1) obtain as where
    r: "length (field_objs st) \<le> r" "r < length (field_objs st1)"
    and o: "field_objs st1 ! r = (field_objs st ! f)\<lparr>field_name := Some k, field_args := ArgsList as\<rparr>"
    and c: "args_copied (arg_objs st) (arg_objs st1) (arg_entries (field_args (field_objs st ! f))) as"
    unfolding field_copied_def by blast
  from assms(2) r have r': "r < length (field_objs st')"
    using extends_length [of st1 st'] by simp
  from assms(2) r o
  have o': "field_objs st' ! r = (field_objs st ! f)\<lparr>field_name := Some k, field_args := ArgsList as\<rparr>"
    by (simp add: extends_field_nth)
  have c': "args_copied (arg_objs st) (arg_objs st') (arg_entries (field_args (field_objs st ! f))) as"
    unfolding args_copied_def
  proof (intro conjI allI impI)
    fix q assume q: "q < length (arg_entries (field_args (field_objs st ! f)))"
    with c have b: "length (arg_objs st) \<le> as ! q" "as ! q < length (arg_objs st1)"
      and e: "arg_objs st1 ! (as ! q) = (arg_objs st ! snd (arg_entries (field_args (field_objs st ! f)) ! q))
          \<lparr>arg_name := Some (fst (arg_entries (field_args (field_objs st ! f)) ! q))\<rparr>"
      unfolding args_copied_def by blast+
    show "length (arg_objs st) \<le> as ! q" by (rule b)
    show "as ! q < length (arg_objs st')"
      using b extends_length [OF assms(2)] by simp
    show "arg_objs st' ! (as ! q) = (arg_objs st ! snd (arg_entries (field_args (field_objs st ! f)) ! q))
          \<lparr>arg_name := Some (fst (arg_entries (field_args (field_objs st ! f)) ! q))\<rparr>"
      using b e assms(2) by (simp add: extends_arg_nth)
  qed (use c in \<open>simp_all add: args_copied_def\<close>)
  from r r' o' c' show ?thesis
    unfolding field_copied_def by blast
qed

lemma field_copied_earlier:
  assumes "field_copied st1 st' k f r" "extends st st1" "f < length (field_objs st)"
    and valid: "list_all (\<lambda>(ak, a). a < length (arg_objs st))
                  (arg_entries (field_args (field_objs st ! f)))"
  shows "field_copied st st' k f r"
proof -
  from assms(2,3) have f: "field_objs st1 ! f = field_objs st ! f"
    by (simp add: extends_field_nth)
  from assms(1) f obtain as where
    r: "length (field_objs st1) \<le> r" "r < length (field_objs st')"
    and o: "field_objs st' ! r = (field_objs st ! f)\<lparr>field_name := Some k, field_args := ArgsList as\<rparr>"
    and c: "args_copied (arg_objs st1) (arg_objs st') (arg_entries (field_args (field_objs st ! f))) as"
    unfolding field_copied_def by auto
  from r assms(2) have r': "length (field_objs st) \<le> r"
    using extends_length [of st st1] by simp
  have c': "args_copied (arg_objs st) (arg_objs st') (arg_entries (field_args (field_objs st ! f))) as"
    unfolding args_copied_def
  proof (intro conjI allI impI)
    fix q assume q: "q < length (arg_entries (field_args (field_objs st ! f)))"
    with c have b: "length (arg_objs st1) \<le> as ! q" "as ! q < length (arg_objs st')"
      and e: "arg_objs st' ! (as ! q) = (arg_objs st1 ! snd (arg_entries (field_args (field_objs st ! f)) ! q))
          \<lparr>arg_name := Some (fst (arg_entries (field_args (field_objs st ! f)) ! q))\<rparr>"
      unfolding args_copied_def by blast+
    from valid q have "snd (arg_entries (field_args (field_objs st ! f)) ! q) < length (arg_objs st)"
      by (simp add: list_all_length case_prod_beta)
    with assms(2) have "arg_objs st1 ! snd (arg_entries (field_args (field_objs st ! f)) ! q)
        = arg_objs st ! snd (arg_entries (field_args (field_objs st ! f)) ! q)"
      by (simp add: extends_arg_nth)
    with e show "arg_objs st' ! (as ! q) = (arg_objs st ! snd (arg_entries (field_args (field_objs st ! f)) ! q))
          \<lparr>arg_name := Some (fst (arg_entries (field_args (field_objs st ! f)) ! q))\<rparr>"
      by simp
    show "length (arg_objs st) \<le> as ! q"
      using b extends_length [OF assms(2)] by simp
    show "as ! q < length (arg_objs st')" by (rule b)
  qed (use c in \<open>simp_all add: args_copied_def\<close>)
  from r' r o c' show ?thesis
    unfolding field_copied_def by blast
qed

lemma valid_refs_later:
  assumes "valid_refs st d" "extends st st1"
  shows "valid_refs st1 d"
  unfolding valid_refs_def list_all_iff
proof (intro ballI, clarify)
  fix k f assume kf: "(k, f) \<in> set d"
  with assms(1) have f: "f < length (field_objs st)"
    and a: "\<forall>(ak, a)\<in>set (arg_entries (field_args (field_objs st ! f))). a < length (arg_objs st)"
    unfolding valid_refs_def list_all_iff by auto
  from f assms(2) have eq: "field_objs st1 ! f = field_objs st ! f"
    by (simp add: extends_field_nth)
  from extends_length [OF assms(2)] f a eq
  show "f < length (field_objs st1)
    \<and> (\<forall>x\<in>set (arg_entries (field_args (field_objs st1 ! f))). case x of (ak, a) \<Rightarrow> a < length (arg_objs st1))"
    by fastforce
qed

lemma define_fields_frame:
  "define_fields tn d fm st = (res, st') \<Longrightarrow> extends st st'"
proof (induction d arbitrary: fm st)
  case Nil
  then show ?case by (simp add: extends_refl)
next
  case (Cons e d)
  obtain k f where e: "e = (k, f)" by (cases e)
  obtain x st1 where df: "define_field tn k f st = (x, st1)"
    by (cases "define_field tn k f st")
  note f1 = define_field_frame [OF df]
  show ?case
  proof (cases x)
    case (Inl err)
    with Cons.prems e df f1 show ?thesis by simp
  next
    case (Inr new)
    with Cons.prems e df
    have "define_fields tn d (dict_set k new fm) st1 = (res, st')" by simp
    from Cons.IH [OF this] f1 show ?thesis by (rule extends_trans [rotated])
  qed
qed

lemma dict_set_fresh: "k \<notin> fst ` set fm \<Longrightarrow> dict_set k v fm = fm @ [(k, v)]"
  by (induction fm) auto

lemma define_fields_success:
  assumes "define_fields tn d fm st = (Inr m, st')" "valid_refs st d"
    "distinct (map fst d)" "fst ` set d \<inter> fst ` set fm = {}"
  shows "m = fm @ zip (map fst d) [length (field_objs st) ..< length (field_objs st) + length d]
    \<and> (\<forall>p<length d. field_copied st st' (fst (d ! p)) (snd (d ! p)) (length (field_objs st) + p))"
  using assms
proof (induction d arbitrary: fm st)
  case Nil
  then show ?case by simp
next
  case (Cons e d)
  obtain k f where e: "e = (k, f)" by (cases e)
  obtain x st1 where df: "define_field tn k f st = (x, st1)"
    by (cases "define_field tn k f st")
  from Cons.prems(1) e df obtain new where x: "x = Inr new"
    by (cases x) auto
  from Cons.prems(1) e df x
  have run: "define_fields tn d (dict_set k new fm) st1 = (Inr m, st')" by simp
  from Cons.prems(2) e have vf: "f < length (field_objs st)"
    and va: "list_all (\<lambda>(ak, a). a < length (arg_objs st))
                  (arg_entries (field_args (field_objs st ! f)))"
    and vd: "valid_refs st d"
    by (simp_all add: valid_refs_def)
  from define_field_success [OF df [unfolded x] va]
  have new: "new = length (field_objs st)"
    and len1: "length (field_objs st1) = Suc (length (field_objs st))"
    and c0: "field_copied st st1 k f new"
    by blast+
  have ext1: "extends st st1"
    using df by (rule define_field_frame)
  have ext': "extends st1 st'"
    using run by (rule define_fields_frame)
  from Cons.prems(4) e have kfm: "k \<notin> fst ` set fm" by auto
  then have ds: "dict_set k new fm = fm @ [(k, new)]"
    by (rule dict_set_fresh)
  from Cons.prems(3,4) e have disj: "fst ` set d \<inter> fst ` set (dict_set k new fm) = {}"
    unfolding ds by auto
  from Cons.prems(3) have dist: "distinct (map fst d)" by simp
  from Cons.IH [OF run valid_refs_later [OF vd ext1] dist disj]
  have m: "m = dict_set k new fm
      @ zip (map fst d) [length (field_objs st1) ..< length (field_objs st1) + length d]"
    and ih: "\<forall>p<length d. field_copied st1 st' (fst (d ! p)) (snd (d ! p)) (length (field_objs st1) + p)"
    by simp_all
  have upt: "[length (field_objs st) ..< length (field_objs st) + length (e # d)]
      = length (field_objs st) # [Suc (length (field_objs st)) ..< Suc (length (field_objs st)) + length d]"
    by (subst upt_rec) simp
  have 1: "m = fm @ zip (map fst (e # d))
      [length (field_objs st) ..< length (field_objs st) + length (e # d)]"
    unfolding upt using m ds new len1 e by simp
  have 2: "field_copied st st' (fst ((e # d) ! p)) (snd ((e # d) ! p)) (length (field_objs st) + p)"
    if p: "p < length (e # d)" for p
  proof (cases p)
    case 0
    from field_copied_later [OF c0 ext'] show ?thesis
      by (simp add: 0 e new)
  next
    case (Suc p')
    with p have p': "p' < length d" by simp
    with ih len1 have c: "field_copied st1 st' (fst (d ! p')) (snd (d ! p')) (length (field_objs st) + p)"
      by (simp add: Suc)
    from vd p' have "snd (d ! p') < length (field_objs st)"
      and "list_all (\<lambda>(ak, a). a < length (arg_objs st))
             (arg_entries (field_args (field_objs st ! snd (d ! p'))))"
      by (simp_all add: valid_refs_def list_all_length case_prod_beta)
    with field_copied_earlier [OF c ext1] show ?thesis
      by (simp add: Suc)
  qed
  from 1 2 show ?case by blast
qed

text \<open>
  C8. Whatever \<open>define_field_map\<close> returns, every object of the store it started
  from is in the store it leaves, unmodified: the fields and arguments of the caller are
  not assigned to. When it returns the field map \<open>m\<close> for the dict \<open>d\<close>, \<open>m\<close> has
  the keys of \<open>d\<close> in order; its entries are pairwise distinct references; and the
  entry at the position \<open>p\<close> is a copy of the field at that position of \<open>d\<close> that
  carries the key as \<open>name\<close>, with copies of its arguments that carry their keys.
  So a field under two keys gives two distinct objects, each with its own key.
\<close>

theorem field_map_resolution_copies:
  assumes run: "define_field_map tn provided n st = (res, n', st')"
  shows "extends st st'
    \<and> (\<forall>d m. fst (call_fields provided n) = FieldsMapping d \<and> distinct (map fst d)
           \<and> valid_refs st d \<and> res = Inr m \<longrightarrow>
         map fst m = map fst d \<and> distinct (map snd m)
         \<and> (\<forall>p<length d. field_copied st st' (fst (d ! p)) (snd (d ! p)) (snd (m ! p))))"
proof (intro conjI)
  obtain fv k where cf: "call_fields provided n = (fv, k)"
    by (cases "call_fields provided n")
  show "extends st st'"
  proof (cases fv)
    case FieldsOther
    with run cf show ?thesis by (simp add: define_field_map_def extends_refl)
  next
    case (FieldsMapping d)
    show ?thesis
    proof (cases "d = []")
      case True
      with run cf FieldsMapping show ?thesis by (simp add: define_field_map_def extends_refl)
    next
      case False
      with run cf FieldsMapping have "define_fields tn d [] st = (res, st')"
        by (simp add: define_field_map_def split: prod.splits)
      then show ?thesis by (rule define_fields_frame)
    qed
  qed
  show "\<forall>d m. fst (call_fields provided n) = FieldsMapping d \<and> distinct (map fst d)
           \<and> valid_refs st d \<and> res = Inr m \<longrightarrow>
         map fst m = map fst d \<and> distinct (map snd m)
         \<and> (\<forall>p<length d. field_copied st st' (fst (d ! p)) (snd (d ! p)) (snd (m ! p)))"
  proof (intro allI impI)
    fix d m
    assume h: "fst (call_fields provided n) = FieldsMapping d \<and> distinct (map fst d)
           \<and> valid_refs st d \<and> res = Inr m"
    then obtain k where cf: "call_fields provided n = (FieldsMapping d, k)"
      by (cases "call_fields provided n") simp
    from run cf h have ne: "d \<noteq> []"
      by (auto simp: define_field_map_def)
    with run cf h have "define_fields tn d [] st = (Inr m, st')"
      by (simp add: define_field_map_def split: prod.splits)
    from define_fields_success [OF this] h
    have m: "m = zip (map fst d) [length (field_objs st) ..< length (field_objs st) + length d]"
      and c: "\<forall>p<length d. field_copied st st' (fst (d ! p)) (snd (d ! p)) (length (field_objs st) + p)"
      by simp_all
    from m have 1: "map fst m = map fst d" by simp
    from m have 2: "distinct (map snd m)" by simp
    from m c have 3: "\<forall>p<length d. field_copied st st' (fst (d ! p)) (snd (d ! p)) (snd (m ! p))"
      by simp
    from 1 2 3 show "map fst m = map fst d \<and> distinct (map snd m)
         \<and> (\<forall>p<length d. field_copied st st' (fst (d ! p)) (snd (d ! p)) (snd (m ! p)))"
      by (intro conjI)
  qed
qed

text \<open>
  \<open>{'a': F, 'b': F}\<close> for one field \<open>F\<close> with \<open>args = {'x': A, 'y': A}\<close> for
  one argument \<open>A\<close>: two new fields named \<open>a\<close> and \<open>b\<close>, four new arguments
  named \<open>x\<close>, \<open>y\<close>, \<open>x\<close>, \<open>y\<close>, and \<open>F\<close> and \<open>A\<close> as they were.
\<close>

theorem field_map_resolution_copies_witness:
  "define_field_map ''SomeObject'' (FieldsGiven (FieldsMapping [(''a'', 0), (''b'', 0)])) 0
     shared_store
   = (Inr [(''a'', 1), (''b'', 2)], 0,
      \<lparr>field_objs =
         [GraphQLField_init GraphQLString (ArgsMapping [(''x'', 0), (''y'', 0)]) (),
          \<lparr>field_name = Some ''a'', field_type = GraphQLString, field_args = ArgsList [1, 2],
            field_rest = ()\<rparr>,
          \<lparr>field_name = Some ''b'', field_type = GraphQLString, field_args = ArgsList [3, 4],
            field_rest = ()\<rparr>],
       arg_objs =
         [GraphQLArgument_init GraphQLString (),
          \<lparr>arg_name = Some ''x'', arg_type = GraphQLString, arg_rest = ()\<rparr>,
          \<lparr>arg_name = Some ''y'', arg_type = GraphQLString, arg_rest = ()\<rparr>,
          \<lparr>arg_name = Some ''x'', arg_type = GraphQLString, arg_rest = ()\<rparr>,
          \<lparr>arg_name = Some ''y'', arg_type = GraphQLString, arg_rest = ()\<rparr>],
       input_objs = []\<rparr>)
   \<and> valid_refs shared_store [(''a'', 0), (''b'', 0)]
   \<and> field_copied shared_store
       \<lparr>field_objs =
         [GraphQLField_init GraphQLString (ArgsMapping [(''x'', 0), (''y'', 0)]) (),
          \<lparr>field_name = Some ''a'', field_type = GraphQLString, field_args = ArgsList [1, 2],
            field_rest = ()\<rparr>,
          \<lparr>field_name = Some ''b'', field_type = GraphQLString, field_args = ArgsList [3, 4],
            field_rest = ()\<rparr>],
       arg_objs =
         [GraphQLArgument_init GraphQLString (),
          \<lparr>arg_name = Some ''x'', arg_type = GraphQLString, arg_rest = ()\<rparr>,
          \<lparr>arg_name = Some ''y'', arg_type = GraphQLString, arg_rest = ()\<rparr>,
          \<lparr>arg_name = Some ''x'', arg_type = GraphQLString, arg_rest = ()\<rparr>,
          \<lparr>arg_name = Some ''y'', arg_type = GraphQLString, arg_rest = ()\<rparr>],
       input_objs = []\<rparr> ''b'' 0 2"
proof -
  let ?d = "[(''a'', 0), (''b'', 0::nat)]"
  let ?st' = "\<lparr>field_objs =
         [GraphQLField_init GraphQLString (ArgsMapping [(''x'', 0), (''y'', 0)]) (),
          \<lparr>field_name = Some ''a'', field_type = GraphQLString, field_args = ArgsList [1, 2],
            field_rest = ()\<rparr>,
          \<lparr>field_name = Some ''b'', field_type = GraphQLString, field_args = ArgsList [3, 4],
            field_rest = ()\<rparr>],
       arg_objs =
         [GraphQLArgument_init GraphQLString (),
          \<lparr>arg_name = Some ''x'', arg_type = GraphQLString, arg_rest = ()\<rparr>,
          \<lparr>arg_name = Some ''y'', arg_type = GraphQLString, arg_rest = ()\<rparr>,
          \<lparr>arg_name = Some ''x'', arg_type = GraphQLString, arg_rest = ()\<rparr>,
          \<lparr>arg_name = Some ''y'', arg_type = GraphQLString, arg_rest = ()\<rparr>],
       input_objs = []\<rparr> :: (nat, unit) store"
  have n: "NAME_PATTERN_match ''a''" "NAME_PATTERN_match ''b''"
    "NAME_PATTERN_match ''x''" "NAME_PATTERN_match ''y''"
    by (simp_all add: name_start_def name_char_def)
  have t: "is_output_type GraphQLString" "is_input_type GraphQLString"
    by (simp_all add: is_output_type_def is_input_type_def GraphQLString_def)
  have run: "define_field_map ''SomeObject'' (FieldsGiven (FieldsMapping ?d)) 0 shared_store
     = (Inr [(''a'', 1), (''b'', 2)], 0, ?st')"
    using n t
    by (simp add: define_field_map_def define_field_def Let_def assert_valid_name_def
        shared_store_def GraphQLField_init_def GraphQLArgument_init_def)
  have v: "valid_refs shared_store ?d"
    by (simp add: valid_refs_def shared_store_def GraphQLField_init_def)
  have h: "fst (call_fields (FieldsGiven (FieldsMapping ?d)) 0) = FieldsMapping ?d
      \<and> distinct (map fst ?d) \<and> valid_refs shared_store ?d
      \<and> (Inr [(''a'', 1), (''b'', 2)] :: error + (string \<times> nat) list) = Inr [(''a'', 1), (''b'', 2)]"
    using v by simp
  note c = field_map_resolution_copies
    [OF run, THEN conjunct2, THEN spec, THEN spec, THEN mp, OF h]
  from c [THEN conjunct2, THEN conjunct2, THEN spec, of 1]
  have "field_copied shared_store ?st' ''b'' 0 2"
    by simp
  with run v show ?thesis
    by (intro conjI)
qed

section \<open>Properties of \<open>get_fields\<close>\<close>

lemma get_fields_cached:
  assumes "gf = GraphQLObjectType_get_fields \<or> gf = GraphQLInterfaceType_get_fields
      \<or> gf = GraphQLInputObjectType_get_fields"
    and "cached_field_map self = Some m"
  shows "gf self st = (Inr m, self, st)"
  using assms
  by (auto simp: GraphQLObjectType_get_fields_def GraphQLInterfaceType_get_fields_def
      GraphQLInputObjectType_get_fields_def)

lemma call_repeatedly_cached:
  assumes "gf = GraphQLObjectType_get_fields \<or> gf = GraphQLInterfaceType_get_fields
      \<or> gf = GraphQLInputObjectType_get_fields"
    and "cached_field_map self = Some m"
  shows "call_repeatedly k gf self st = (replicate k (Inr m), self, st)"
  by (induction k) (simp_all add: get_fields_cached [OF assms])

lemma define_field_map_invocations:
  "define_field_map tn (FieldsProducer p) n st = (res, n', st') \<Longrightarrow> n' = Suc n"
  by (auto simp: define_field_map_def split: fields_value.splits if_splits prod.splits)

lemma define_input_field_map_invocations:
  "define_input_field_map tn (FieldsProducer p) n st = (res, n', st') \<Longrightarrow> n' = Suc n"
  by (auto simp: define_input_field_map_def split: fields_value.splits if_splits prod.splits)

lemma get_fields_first:
  assumes gf: "gf = GraphQLObjectType_get_fields \<or> gf = GraphQLInterfaceType_get_fields
      \<or> gf = GraphQLInputObjectType_get_fields"
    and c: "cached_field_map self = None" and p: "provided_fields self = FieldsProducer p"
    and run: "gf self st = (Inr m, self1, st1)"
  shows "self1 = self\<lparr>cached_field_map := Some m, invocations := Suc (invocations self)\<rparr>"
proof -
  consider (a) "gf = GraphQLObjectType_get_fields \<or> gf = GraphQLInterfaceType_get_fields"
    | (b) "gf = GraphQLInputObjectType_get_fields"
    using gf by blast
  then show ?thesis
  proof cases
    case a
    obtain res n' st' where d: "define_field_map (inst_name self) (FieldsProducer p)
        (invocations self) st = (res, n', st')"
      by (cases "define_field_map (inst_name self) (FieldsProducer p) (invocations self) st")
    from define_field_map_invocations [OF d] have "n' = Suc (invocations self)" .
    with a c p run d show ?thesis
      by (cases res)
        (auto simp: GraphQLObjectType_get_fields_def GraphQLInterfaceType_get_fields_def)
  next
    case b
    obtain res n' st' where d: "define_input_field_map (inst_name self) (FieldsProducer p)
        (invocations self) st = (res, n', st')"
      by (cases "define_input_field_map (inst_name self) (FieldsProducer p) (invocations self) st")
    from define_input_field_map_invocations [OF d] have "n' = Suc (invocations self)" .
    with b c p run d show ?thesis
      by (cases res) (auto simp: GraphQLInputObjectType_get_fields_def)
  qed
qed

text \<open>
  C7, as the code has it. \<open>get_fields\<close> assigns the cache only when
  \<open>define_field_map\<close> returns. With the producer \<open>lambda: {}\<close> of the tests every
  call of \<open>get_fields\<close> raises, nothing is cached, and two calls invoke the producer
  twice.
\<close>

theorem get_fields_failing_producer_counterexample:
  "call_repeatedly 2 GraphQLObjectType_get_fields
     (new_instance ''SomeObject'' (FieldsProducer empty_producer)) empty_store
   = ([Inl (FieldsMustBeMapping ''SomeObject''), Inl (FieldsMustBeMapping ''SomeObject'')],
      \<lparr>inst_name = ''SomeObject'', provided_fields = FieldsProducer empty_producer,
        cached_field_map = None, invocations = 2\<rparr>,
      empty_store)"
  by (simp add: eval_nat_numeral GraphQLObjectType_get_fields_def define_field_map_def
      new_instance_def empty_producer_def)

text \<open>
  C7, amended. For \<open>get_fields\<close> of an Object, an Interface or an InputObject type
  whose fields are a producer and whose cache is empty: when the first call returns a
  field map \<open>m\<close>, then however many calls follow (\<open>k\<close> of them), each returns
  \<open>m\<close>, the producer has been invoked exactly once, and the instance and the store
  are as the first call left them.
\<close>

theorem get_fields_memoized:
  assumes gf: "gf = GraphQLObjectType_get_fields \<or> gf = GraphQLInterfaceType_get_fields
      \<or> gf = GraphQLInputObjectType_get_fields"
    and c: "cached_field_map self = None" and p: "provided_fields self = FieldsProducer p"
    and run: "gf self st = (Inr m, self1, st1)"
  shows "call_repeatedly (Suc k) gf self st = (replicate (Suc k) (Inr m), self1, st1)
    \<and> invocations self1 = Suc (invocations self)
    \<and> cached_field_map self1 = Some m"
proof -
  note s = get_fields_first [OF gf c p run]
  then have cm: "cached_field_map self1 = Some m" by simp
  from call_repeatedly_cached [OF gf cm]
  have "call_repeatedly k gf self1 st1 = (replicate k (Inr m), self1, st1)" .
  with run s show ?thesis by simp
qed

theorem get_fields_memoized_witness:
  "call_repeatedly 3 GraphQLObjectType_get_fields
     (new_instance ''SomeObject'' (FieldsProducer f_producer)) f_store
   = ([Inr [(''f'', 1)], Inr [(''f'', 1)], Inr [(''f'', 1)]],
      \<lparr>inst_name = ''SomeObject'', provided_fields = FieldsProducer f_producer,
        cached_field_map = Some [(''f'', 1)], invocations = 1\<rparr>,
      \<lparr>field_objs = [GraphQLField_init GraphQLString ArgsNone (),
                     \<lparr>field_name = Some ''f'', field_type = GraphQLString,
                       field_args = ArgsList [], field_rest = ()\<rparr>],
        arg_objs = [], input_objs = [GraphQLInputObjectField_init GraphQLString ()]\<rparr>)"
proof -
  let ?self = "new_instance ''SomeObject'' (FieldsProducer f_producer)"
  let ?self1 = "\<lparr>inst_name = ''SomeObject'', provided_fields = FieldsProducer f_producer,
        cached_field_map = Some [(''f'', 1)], invocations = 1\<rparr>"
  let ?st1 = "\<lparr>field_objs = [GraphQLField_init GraphQLString ArgsNone (),
                     \<lparr>field_name = Some ''f'', field_type = GraphQLString,
                       field_args = ArgsList [], field_rest = ()\<rparr>],
        arg_objs = [], input_objs = [GraphQLInputObjectField_init GraphQLString ()]\<rparr>
        :: (nat, unit) store"
  have n: "NAME_PATTERN_match ''f''"
    by (simp add: name_start_def name_char_def)
  have t: "is_output_type GraphQLString"
    by (simp add: is_output_type_def GraphQLString_def)
  have run: "GraphQLObjectType_get_fields ?self f_store = (Inr [(''f'', 1)], ?self1, ?st1)"
    using n t
    by (simp add: GraphQLObjectType_get_fields_def define_field_map_def define_field_def Let_def
        assert_valid_name_def new_instance_def f_producer_def f_store_def GraphQLField_init_def)
  have "call_repeatedly (Suc 2) GraphQLObjectType_get_fields ?self f_store
      = (replicate (Suc 2) (Inr [(''f'', 1)]), ?self1, ?st1)"
    using get_fields_memoized [of GraphQLObjectType_get_fields ?self f_producer f_store
        "[(''f'', 1)]" ?self1 ?st1 2] run
    by (simp add: new_instance_def)
  then show ?thesis
    by (simp add: eval_nat_numeral)
qed


section \<open>Properties of the asyncio middleware\<close>

text \<open>
  A callback of another Deferred leaves the Deferred \<open>d\<close> and the futures as they
  are; the callback of a pending Deferred \<open>d\<close> leaves it as the outcome of the
  future has it.
\<close>

lemma handle_future_result_other:
  "handle_future_result d' f' w = Inr w' \<Longrightarrow> d' \<noteq> d \<Longrightarrow>
   deferreds w' ! d = deferreds w ! d \<and> futures w' = futures w
   \<and> length (deferreds w') = length (deferreds w)"
  by (auto simp: handle_future_result_def callback_def errback_def
      split: option.splits outcome.splits if_splits)

lemma run_callbacks_other:
  "\<forall>(d', f') \<in> set cbs. d' \<noteq> d \<Longrightarrow>
   deferreds (run_callbacks cbs w) ! d = deferreds w ! d
   \<and> futures (run_callbacks cbs w) = futures w
   \<and> length (deferreds (run_callbacks cbs w)) = length (deferreds w)"
proof (induction cbs arbitrary: w)
  case Nil
  show ?case by simp
next
  case (Cons cb cbs)
  obtain d' f' where cb: "cb = (d', f')" by (cases cb)
  from Cons.prems cb have ne: "d' \<noteq> d" and rest: "\<forall>(d', f') \<in> set cbs. d' \<noteq> d"
    by auto
  show ?case
  proof (cases "handle_future_result d' f' w")
    case (Inl err)
    with Cons.IH [OF rest, of w] cb show ?thesis by simp
  next
    case (Inr w')
    from handle_future_result_other [OF Inr ne] Cons.IH [OF rest, of w'] Inr cb
    show ?thesis by simp
  qed
qed

lemma run_callbacks_snoc:
  "run_callbacks (xs @ [(d, g)]) u
     = (case handle_future_result d g (run_callbacks xs u) of
          Inl err \<Rightarrow> run_callbacks xs u
        | Inr u' \<Rightarrow> u')"
  by (induction xs arbitrary: u) (auto split: sum.splits)

lemma handle_future_result_settles:
  assumes "deferreds u ! d = Pending" "d < length (deferreds u)"
    "outcome (futures u ! f) = Some out"
  shows "deferreds (case handle_future_result d f u of Inl err \<Rightarrow> u | Inr u' \<Rightarrow> u') ! d
    = settlement out"
proof (cases out)
  case (Result v)
  with assms show ?thesis
    by (simp add: handle_future_result_def callback_def)
next
  case (Exception e)
  with assms show ?thesis
    by (simp add: handle_future_result_def errback_def)
next
  case Cancelled
  with assms show ?thesis
    by (simp add: handle_future_result_def)
qed

lemma last_callback_settles:
  assumes others: "\<forall>(d', f') \<in> set pre. d' \<noteq> d"
    and u: "deferreds u ! d = Pending" "d < length (deferreds u)"
      "outcome (futures u ! f) = Some out"
  shows "deferreds (run_callbacks (pre @ [(d, f)]) u) ! d = settlement out"
proof -
  let ?u = "run_callbacks pre u"
  from run_callbacks_other [OF others, of u] u
  have "deferreds ?u ! d = Pending" "d < length (deferreds ?u)"
    "outcome (futures ?u ! f) = Some out"
    by simp_all
  from handle_future_result_settles [OF this] show ?thesis
    by (simp add: run_callbacks_snoc)
qed

lemma well_formed_others:
  assumes "well_formed w" "f < length (futures w)"
  shows "\<forall>(d', f') \<in> set (ready w @ map (\<lambda>d. (d, f)) (done_callbacks (futures w ! f))).
           d' \<noteq> length (deferreds w)"
proof -
  from assms(1) have "\<forall>(d', f') \<in> set (ready w). d' < length (deferreds w)"
    by (auto simp: well_formed_def list_all_iff)
  moreover from assms have "\<forall>d' \<in> set (done_callbacks (futures w ! f)). d' < length (deferreds w)"
    by (auto simp: well_formed_def list_all_iff)
  ultimately show ?thesis by auto
qed

lemma registered_deferred_settles:
  assumes wf: "well_formed w" and f: "f < length (futures w)"
    and pend: "outcome (futures w ! f) = None"
    and w1: "w1 = add_done_callback f (length (deferreds w))
                    (w\<lparr>deferreds := deferreds w @ [Pending]\<rparr>)"
  shows "deferreds w1 = deferreds w @ [Pending]
     \<and> (\<forall>out. \<exists>w2. complete f out w1 = Inr w2
           \<and> deferreds (run_ready w2) ! length (deferreds w) = settlement out)"
proof (intro conjI allI)
  let ?d = "length (deferreds w)"
  let ?cbs = "done_callbacks (futures w ! f)"
  let ?pre = "ready w @ map (\<lambda>d. (d, f)) ?cbs"
  have w1': "w1 = w\<lparr>deferreds := deferreds w @ [Pending],
      futures := (futures w)[f := (futures w ! f)\<lparr>done_callbacks := ?cbs @ [?d]\<rparr>]\<rparr>"
    using w1 pend by (simp add: add_done_callback_def)
  then show "deferreds w1 = deferreds w @ [Pending]" by simp
  fix out :: "('a, 'b py_exception) outcome"
  let ?w2 = "w1\<lparr>futures := (futures w1)[f := \<lparr>outcome = Some out, done_callbacks = []\<rparr>],
                ready := ready w1 @ map (\<lambda>d. (d, f)) (done_callbacks (futures w1 ! f))\<rparr>"
  let ?w3 = "?w2\<lparr>ready := []\<rparr>"
  have c: "complete f out w1 = Inr ?w2"
    using w1' f pend by (simp add: complete_def)
  have rd: "ready ?w2 = ?pre @ [(?d, f)]"
    using w1' f by simp
  have u: "deferreds ?w3 ! ?d = Pending" "?d < length (deferreds ?w3)"
    "outcome (futures ?w3 ! f) = Some out"
    using w1' f by (simp_all add: nth_append)
  from last_callback_settles [OF well_formed_others [OF wf f] u]
  have "deferreds (run_ready ?w2) ! ?d = settlement out"
    unfolding run_ready_def rd .
  with c show "\<exists>w2. complete f out w1 = Inr w2
      \<and> deferreds (run_ready w2) ! length (deferreds w) = settlement out"
    by blast
qed

text \<open>
  What \<open>run_resolve_fn\<close> does. It returns the result of the resolver, and changes
  nothing, when the result is neither a Future nor a coroutine. Otherwise it returns a
  new Deferred, which is pending. When the result is a pending Future \<open>fut\<close>, or a
  coroutine (whose Task \<open>fut\<close> is then created): once the host completes \<open>fut\<close>
  with the outcome \<open>out\<close> and the event loop has run the callbacks, the Deferred is
  as \<open>settlement out\<close> has it. When the result is a Future that is done already:
  once the event loop has run the callbacks, the same holds. So the Deferred is settled
  with the result of the future, and with its exception when the exception is truthy;
  it stays pending for a falsy exception and for a cancelled future.
\<close>

lemma run_resolve_fn_settles:
  "(\<not> is_host_pending (resolver ()) \<longrightarrow> run_resolve_fn resolver w = (resolver (), w))
   \<and> (well_formed w
        \<and> (resolver () = FutureRef f \<and> f < length (futures w) \<and> outcome (futures w ! f) = None
             \<and> fut = f
            \<or> resolver () = CoroutineRef c \<and> fut = length (futures w)) \<longrightarrow>
      (\<exists>w1. run_resolve_fn resolver w = (DeferredRef (length (deferreds w)), w1)
         \<and> deferreds w1 = deferreds w @ [Pending]
         \<and> (\<forall>out. \<exists>w2. complete fut out w1 = Inr w2
               \<and> deferreds (run_ready w2) ! length (deferreds w) = settlement out)))
   \<and> (well_formed w \<and> resolver () = FutureRef f \<and> f < length (futures w)
        \<and> outcome (futures w ! f) = Some done \<longrightarrow>
      (\<exists>w1. run_resolve_fn resolver w = (DeferredRef (length (deferreds w)), w1)
         \<and> deferreds w1 = deferreds w @ [Pending]
         \<and> deferreds (run_ready w1) ! length (deferreds w) = settlement done))"
proof (intro conjI impI)
  assume "\<not> is_host_pending (resolver ())"
  then show "run_resolve_fn resolver w = (resolver (), w)"
    by (simp add: run_resolve_fn_def)
next
  assume h: "well_formed w
        \<and> (resolver () = FutureRef f \<and> f < length (futures w) \<and> outcome (futures w ! f) = None
             \<and> fut = f
            \<or> resolver () = CoroutineRef c \<and> fut = length (futures w))"
  then have "(resolver () = FutureRef f \<and> f < length (futures w) \<and> outcome (futures w ! f) = None
             \<and> fut = f)
            \<or> (resolver () = CoroutineRef c \<and> fut = length (futures w))"
    by (rule conjunct2)
  then consider (future) "resolver () = FutureRef f" "f < length (futures w)"
      "outcome (futures w ! f) = None" "fut = f"
    | (coroutine) "resolver () = CoroutineRef c" "fut = length (futures w)"
    by (elim disjE conjE)
  then show "\<exists>w1. run_resolve_fn resolver w = (DeferredRef (length (deferreds w)), w1)
         \<and> deferreds w1 = deferreds w @ [Pending]
         \<and> (\<forall>out. \<exists>w2. complete fut out w1 = Inr w2
               \<and> deferreds (run_ready w2) ! length (deferreds w) = settlement out)"
  proof cases
    case future
    let ?w1 = "add_done_callback f (length (deferreds w)) (w\<lparr>deferreds := deferreds w @ [Pending]\<rparr>)"
    have r: "run_resolve_fn resolver w = (DeferredRef (length (deferreds w)), ?w1)"
      using future by (simp add: run_resolve_fn_def Deferred_init_def)
    from h have wf: "well_formed w" by simp
    from registered_deferred_settles [OF wf future(2,3) refl] r future(4)
    show ?thesis by simp
  next
    case coroutine
    let ?w0 = "w\<lparr>futures := futures w @ [\<lparr>outcome = None, done_callbacks = []\<rparr>]\<rparr>"
    let ?w1 = "add_done_callback fut (length (deferreds ?w0))
        (?w0\<lparr>deferreds := deferreds ?w0 @ [Pending]\<rparr>)"
    have r: "run_resolve_fn resolver w = (DeferredRef (length (deferreds w)), ?w1)"
      using coroutine by (simp add: run_resolve_fn_def Deferred_init_def)
    from h have wf: "well_formed ?w0" by (simp add: well_formed_def)
    have f: "fut < length (futures ?w0)" "outcome (futures ?w0 ! fut) = None"
      using coroutine by simp_all
    from registered_deferred_settles [OF wf f refl] r
    show ?thesis by simp
  qed
next
  assume h: "well_formed w \<and> resolver () = FutureRef f \<and> f < length (futures w)
        \<and> outcome (futures w ! f) = Some done"
  let ?d = "length (deferreds w)"
  let ?w1 = "w\<lparr>deferreds := deferreds w @ [Pending], ready := ready w @ [(?d, f)]\<rparr>"
  have r: "run_resolve_fn resolver w = (DeferredRef ?d, ?w1)"
    using h by (simp add: run_resolve_fn_def Deferred_init_def add_done_callback_def)
  from h have others: "\<forall>(d', f') \<in> set (ready w). d' \<noteq> ?d"
    by (auto simp: well_formed_def list_all_iff)
  let ?w3 = "?w1\<lparr>ready := []\<rparr>"
  have u: "deferreds ?w3 ! ?d = Pending" "?d < length (deferreds ?w3)"
    "outcome (futures ?w3 ! f) = Some done"
    using h by (simp_all add: nth_append)
  from last_callback_settles [OF others u]
  have "deferreds (run_ready ?w1) ! ?d = settlement done"
    by (simp add: run_ready_def)
  with r show "\<exists>w1. run_resolve_fn resolver w = (DeferredRef (length (deferreds w)), w1)
         \<and> deferreds w1 = deferreds w @ [Pending]
         \<and> deferreds (run_ready w1) ! length (deferreds w) = settlement done"
    by simp
qed

text \<open>
  C9. \<open>run_resolve_fn\<close> returns the result of the resolver unchanged when it is no
  pending computation of the host, and otherwise a Deferred that settles, once the host
  computation completes, to the same success value or to the same raised exception.
  The code settles the Deferred with the exception only when the exception object is
  truthy: \<open>handle_future_result\<close> tests \<open>if exception:\<close>, where the exception
  is there whenever \<open>future.exception()\<close> is not \<open>None\<close>. At a resolver that
  returns a pending future, which then completes with a falsy exception: the callback
  takes the \<open>else\<close> branch, \<open>future.result()\<close> raises, and the Deferred is left
  pending, where the claim has it failed with that exception. With a truthy exception
  it is failed with it.
\<close>

theorem falsy_exception_leaves_deferred_pending:
  "\<not> exception_truthy empty_errors
   \<and> run_resolve_fn future_resolver lone_future
     = (DeferredRef 0,
        \<lparr>futures = [\<lparr>outcome = None, done_callbacks = [0]\<rparr>], deferreds = [Pending],
          ready = []\<rparr>)
   \<and> complete 0 (Exception empty_errors)
        \<lparr>futures = [\<lparr>outcome = None, done_callbacks = [0]\<rparr>], deferreds = [Pending],
          ready = []\<rparr>
     = Inr \<lparr>futures = [\<lparr>outcome = Some (Exception empty_errors), done_callbacks = []\<rparr>],
            deferreds = [Pending], ready = [(0, 0)]\<rparr>
   \<and> handle_future_result 0 0
        \<lparr>futures = [\<lparr>outcome = Some (Exception empty_errors), done_callbacks = []\<rparr>],
          deferreds = [Pending], ready = []\<rparr>
     = Inl FutureException
   \<and> deferreds (run_ready
        \<lparr>futures = [\<lparr>outcome = Some (Exception empty_errors), done_callbacks = []\<rparr>],
          deferreds = [Pending], ready = [(0, 0)]\<rparr>)
     = [Pending]
   \<and> Pending \<noteq> (Failed empty_errors :: (nat, string py_exception) deferred)
   \<and> deferreds (run_ready
        \<lparr>futures = [\<lparr>outcome = Some (Exception boom), done_callbacks = []\<rparr>],
          deferreds = [Pending :: (nat, string py_exception) deferred], ready = [(0, 0)]\<rparr>)
     = [Failed boom]"
  by (simp add: run_resolve_fn_def future_resolver_def lone_future_def Deferred_init_def
      add_done_callback_def complete_def run_ready_def handle_future_result_def errback_def
      empty_errors_def boom_def)

end
